theory Spec2Isabelle
  imports Main
begin

section \<open>Path strings and pathlib paths\<close>

text \<open>
  The module \<^verbatim>\<open>japanese/helpers/file_ops.py\<close> works on the file system through
  \<^verbatim>\<open>pathlib\<close>, \<^verbatim>\<open>os\<close> and \<^verbatim>\<open>open\<close>. The embedding has three layers:
  path strings and \<^verbatim>\<open>pathlib.Path\<close> values (POSIX flavour), the operating system calls
  on a file-system tree, and the functions of the module itself, written call by call
  as in the source.
\<close>

text \<open>\<^verbatim>\<open>s.split("/")\<close>: the fields between the separators, empty fields kept.\<close>

fun split_sep :: "string \<Rightarrow> string list" where
  "split_sep [] = [[]]"
| "split_sep (c # cs) =
     (if c = CHR ''/'' then [] # split_sep cs
      else (case split_sep cs of [] \<Rightarrow> [[c]] | x # xs \<Rightarrow> (c # x) # xs))"

text \<open>\<^verbatim>\<open>"/".join(parts)\<close>.\<close>

fun join_sep :: "string list \<Rightarrow> string" where
  "join_sep [] = []"
| "join_sep [x] = x"
| "join_sep (x # y # ys) = x @ CHR ''/'' # join_sep (y # ys)"

text \<open>
  A \<^verbatim>\<open>PurePosixPath\<close>: the root (\<^verbatim>\<open>""\<close>, \<^verbatim>\<open>"/"\<close> or \<^verbatim>\<open>"//"\<close>) and the
  components. Two paths are equal when both agree, as in pathlib.
\<close>

datatype path = Path (root: string) (parts: "string list")

text \<open>
  \<^verbatim>\<open>posixpath.splitroot\<close>: exactly two leading slashes are kept as the root
  \<^verbatim>\<open>"//"\<close>, one or three and more collapse to \<^verbatim>\<open>"/"\<close>.
\<close>

fun splitroot :: "string \<Rightarrow> string \<times> string" where
  "splitroot [] = ([], [])"
| "splitroot (c # cs) =
     (if c \<noteq> CHR ''/'' then ([], c # cs)
      else (case cs of
              [] \<Rightarrow> (''/'', [])
            | d # ds \<Rightarrow>
                (if d \<noteq> CHR ''/'' then (''/'', cs)
                 else (case ds of
                         [] \<Rightarrow> (''//'', [])
                       | e # es \<Rightarrow> (if e = CHR ''/'' then (''/'', cs) else (''//'', ds))))))"

text \<open>The components pathlib keeps: the fields that are neither empty nor \<^verbatim>\<open>"."\<close>.\<close>

definition split_parts :: "string \<Rightarrow> string list" where
  "split_parts s = filter (\<lambda>x. x \<noteq> [] \<and> x \<noteq> ''.'') (split_sep s)"

text \<open>\<^verbatim>\<open>pathlib.Path(s)\<close>.\<close>

definition Path_of_str :: "string \<Rightarrow> path" where
  "Path_of_str s = (case splitroot s of (r, rel) \<Rightarrow> Path r (split_parts rel))"

text \<open>\<^verbatim>\<open>str(p)\<close>: the empty relative path prints as \<^verbatim>\<open>"."\<close>.\<close>

definition str_of_path :: "path \<Rightarrow> string" where
  "str_of_path p =
     (if root p = [] \<and> parts p = [] then ''.'' else root p @ join_sep (parts p))"

text \<open>\<^verbatim>\<open>p.parent\<close>: a path without components is its own parent.\<close>

definition parent :: "path \<Rightarrow> path" where
  "parent p = (if parts p = [] then p else Path (root p) (butlast (parts p)))"

text \<open>
  \<^verbatim>\<open>p / s\<close> and \<^verbatim>\<open>p.joinpath(s)\<close>: an absolute right operand replaces the left
  one, any other is split into components and appended.
\<close>

definition joinpath :: "path \<Rightarrow> string \<Rightarrow> path" where
  "joinpath p s =
     (case s of
        [] \<Rightarrow> p
      | c # cs \<Rightarrow> (if c = CHR ''/'' then Path_of_str s
                   else Path (root p) (parts p @ split_parts s)))"

text \<open>
  The exceptions the module can meet. \<^verbatim>\<open>RuntimeError\<close> carries its message.
\<close>

datatype error =
    FileNotFoundError
  | FileExistsError
  | NotADirectoryError
  | IsADirectoryError
  | RuntimeError string

text \<open>
  \<^verbatim>\<open>p.expanduser()\<close>. Only a relative path whose first component starts with
  \<^verbatim>\<open>~\<close> is changed. The home directories are a parameter: \<open>home u\<close> is what
  \<^verbatim>\<open>os.path.expanduser\<close> finds for the user \<open>u\<close> (the empty name is the current user),
  \<open>None\<close> when it finds none, where pathlib raises \<^verbatim>\<open>RuntimeError\<close>.
\<close>

definition expanduser :: "(string \<rightharpoonup> string) \<Rightarrow> path \<Rightarrow> error + path" where
  "expanduser home p =
     (case parts p of
        [] \<Rightarrow> Inr p
      | t # ts \<Rightarrow>
          (if root p = [] \<and> take 1 t = ''~'' then
             (case home (drop 1 t) of
                None \<Rightarrow> Inl (RuntimeError ''Could not determine home directory.'')
              | Some h \<Rightarrow> Inr (Path (root (Path_of_str h)) (parts (Path_of_str h) @ ts)))
           else Inr p))"

text \<open>\<^verbatim>\<open>pathlib.Path.home()\<close>, which is \<^verbatim>\<open>Path("~").expanduser()\<close>.\<close>

definition Path_home :: "(string \<rightharpoonup> string) \<Rightarrow> error + path" where
  "Path_home home = expanduser home (Path_of_str ''~'')"

section \<open>The file system and the operating system calls\<close>

text \<open>
  The file system is a tree of directories and regular files. A node is named by the
  list of components from the root; that list is also the identity of the node (what
  \<^verbatim>\<open>st_dev\<close> and \<^verbatim>\<open>st_ino\<close> are to \<^verbatim>\<open>os.path.samestat\<close>), so there are no
  symbolic or hard links. A regular file has its bytes and its access and
  modification times. Permissions, quotas and devices are outside the model: a call
  fails only for the shape of the tree (\<^verbatim>\<open>ENOENT\<close>, \<^verbatim>\<open>ENOTDIR\<close>, \<^verbatim>\<open>EISDIR\<close>,
  \<^verbatim>\<open>EEXIST\<close>), with the Linux error numbers. Path strings hold no NUL byte.
\<close>

datatype node = Dir | File (content: string) (atime: nat) (mtime: nat)

record fs =
  cwd :: "string list"
  clock :: nat
  nodes :: "string list \<rightharpoonup> node"

text \<open>
  How the kernel reads a path string: it starts at the root or at the working
  directory, skips empty fields, and a trailing slash asks for a directory.
\<close>

definition os_start :: "fs \<Rightarrow> string \<Rightarrow> string list" where
  "os_start f s = (if take 1 s = ''/'' then [] else cwd f)"

definition os_comps :: "string \<Rightarrow> string list" where
  "os_comps s = filter (\<lambda>x. x \<noteq> []) (split_sep s)"

definition must_dir :: "string \<Rightarrow> bool" where
  "must_dir s = (s \<noteq> [] \<and> last s = CHR ''/'')"

text \<open>
  The last component is not an ordinary name: the path is the root, or ends in
  \<^verbatim>\<open>.\<close> or \<^verbatim>\<open>..\<close>.
\<close>

definition last_special :: "string \<Rightarrow> bool" where
  "last_special s =
     (os_comps s = [] \<or> last (os_comps s) = ''.'' \<or> last (os_comps s) = ''..'')"

definition enter :: "string list \<Rightarrow> string \<Rightarrow> string list" where
  "enter cur c = (if c = ''.'' then cur else if c = ''..'' then butlast cur else cur @ [c])"

text \<open>
  Path walk: every component is looked up in a node that must be an existing
  directory. The result names the node the path leads to, which may be missing.
\<close>

fun walk :: "(string list \<rightharpoonup> node) \<Rightarrow> string list \<Rightarrow> string list \<Rightarrow> error + string list" where
  "walk ns cur [] = Inr cur"
| "walk ns cur (c # cs) =
     (case ns cur of
        None \<Rightarrow> Inl FileNotFoundError
      | Some Dir \<Rightarrow> walk ns (enter cur c) cs
      | Some (File _ _ _) \<Rightarrow> Inl NotADirectoryError)"

definition os_walk :: "fs \<Rightarrow> string \<Rightarrow> error + string list" where
  "os_walk f s =
     (if s = [] then Inl FileNotFoundError else walk (nodes f) (os_start f s) (os_comps s))"

text \<open>\<^verbatim>\<open>os.stat(s)\<close>: the identity of the node and the node.\<close>

definition os_stat :: "fs \<Rightarrow> string \<Rightarrow> error + (string list \<times> node)" where
  "os_stat f s =
     (case os_walk f s of
        Inl e \<Rightarrow> Inl e
      | Inr k \<Rightarrow>
          (case nodes f k of
             None \<Rightarrow> Inl FileNotFoundError
           | Some Dir \<Rightarrow> Inr (k, Dir)
           | Some (File c a m) \<Rightarrow>
               (if must_dir s then Inl NotADirectoryError else Inr (k, File c a m))))"

text \<open>\<^verbatim>\<open>os.mkdir(s)\<close>.\<close>

definition os_mkdir :: "fs \<Rightarrow> string \<Rightarrow> error + fs" where
  "os_mkdir f s =
     (case os_walk f s of
        Inl e \<Rightarrow> Inl e
      | Inr k \<Rightarrow>
          (if last_special s \<or> nodes f k \<noteq> None then Inl FileExistsError
           else Inr (f\<lparr>nodes := (nodes f)(k \<mapsto> Dir)\<rparr>)))"

text \<open>
  \<^verbatim>\<open>open(s, "a")\<close> followed by the close of the file object: a missing file is
  created empty, an existing one is left as it is. The call opens with
  \<^verbatim>\<open>O_CREAT\<close>, and then a trailing slash is refused with \<^verbatim>\<open>EISDIR\<close> once the
  directories on the way are found, whatever the last name leads to.
\<close>

definition os_open_append :: "fs \<Rightarrow> string \<Rightarrow> error + fs" where
  "os_open_append f s =
     (case os_walk f s of
        Inl e \<Rightarrow> Inl e
      | Inr k \<Rightarrow>
          (if must_dir s then Inl IsADirectoryError
           else (case nodes f k of
                   Some Dir \<Rightarrow> Inl IsADirectoryError
                 | Some (File c a m) \<Rightarrow> Inr f
                 | None \<Rightarrow>
                     (if last_special s then Inl IsADirectoryError
                      else Inr (f\<lparr>nodes := (nodes f)(k \<mapsto> File [] (clock f) (clock f))\<rparr>)))))"

text \<open>\<^verbatim>\<open>os.utime(s, None)\<close>: both times become the current time.\<close>

definition os_utime :: "fs \<Rightarrow> string \<Rightarrow> error + fs" where
  "os_utime f s =
     (case os_stat f s of
        Inl e \<Rightarrow> Inl e
      | Inr (k, Dir) \<Rightarrow> Inr f
      | Inr (k, File c a m) \<Rightarrow> Inr (f\<lparr>nodes := (nodes f)(k \<mapsto> File c (clock f) (clock f))\<rparr>))"

text \<open>\<^verbatim>\<open>os.unlink(s)\<close>.\<close>

definition os_unlink :: "fs \<Rightarrow> string \<Rightarrow> error + fs" where
  "os_unlink f s =
     (case os_walk f s of
        Inl e \<Rightarrow> Inl e
      | Inr k \<Rightarrow>
          (if last_special s then Inl IsADirectoryError
           else (case nodes f k of
                   None \<Rightarrow> Inl FileNotFoundError
                 | Some Dir \<Rightarrow> Inl IsADirectoryError
                 | Some (File c a m) \<Rightarrow>
                     (if must_dir s then Inl NotADirectoryError
                      else Inr (f\<lparr>nodes := (nodes f)(k := None)\<rparr>)))))"

text \<open>
  \<^verbatim>\<open>os.path.isfile\<close>, \<^verbatim>\<open>Path.is_dir\<close> and \<^verbatim>\<open>Path.is_file\<close> answer \<open>False\<close> where
  \<^verbatim>\<open>stat\<close> fails; \<^verbatim>\<open>Path.samefile\<close> lets the failure through.
\<close>

definition os_path_isfile :: "fs \<Rightarrow> string \<Rightarrow> bool" where
  "os_path_isfile f s = (case os_stat f s of Inr (k, File c a m) \<Rightarrow> True | _ \<Rightarrow> False)"

definition is_dir :: "fs \<Rightarrow> path \<Rightarrow> bool" where
  "is_dir f p = (case os_stat f (str_of_path p) of Inr (k, Dir) \<Rightarrow> True | _ \<Rightarrow> False)"

definition is_file :: "fs \<Rightarrow> path \<Rightarrow> bool" where
  "is_file f p = (case os_stat f (str_of_path p) of Inr (k, File c a m) \<Rightarrow> True | _ \<Rightarrow> False)"

definition samefile :: "fs \<Rightarrow> path \<Rightarrow> path \<Rightarrow> error + bool" where
  "samefile f p q =
     (case os_stat f (str_of_path p) of
        Inl e \<Rightarrow> Inl e
      | Inr (k, n) \<Rightarrow>
          (case os_stat f (str_of_path q) of
             Inl e \<Rightarrow> Inl e
           | Inr (k', n') \<Rightarrow> Inr (k = k')))"

text \<open>
  \<^verbatim>\<open>p.mkdir(parents=True, exist_ok=True)\<close>, as pathlib does it: try \<^verbatim>\<open>os.mkdir\<close>;
  on \<^verbatim>\<open>FileNotFoundError\<close> make the parent in the same way and try once more
  without \<^verbatim>\<open>parents\<close>; any other \<^verbatim>\<open>OSError\<close> is forgiven when the path is a
  directory. \<open>Path_mkdir_exist_ok\<close> is the call with \<^verbatim>\<open>parents=False\<close>.
\<close>

definition Path_mkdir_exist_ok :: "fs \<Rightarrow> path \<Rightarrow> (error + unit) \<times> fs" where
  "Path_mkdir_exist_ok f p =
     (case os_mkdir f (str_of_path p) of
        Inr f' \<Rightarrow> (Inr (), f')
      | Inl e \<Rightarrow>
          (if e = FileNotFoundError then (Inl e, f)
           else if is_dir f p then (Inr (), f) else (Inl e, f)))"

function Path_mkdir :: "fs \<Rightarrow> path \<Rightarrow> (error + unit) \<times> fs" where
  "Path_mkdir f p =
     (case os_mkdir f (str_of_path p) of
        Inr f' \<Rightarrow> (Inr (), f')
      | Inl e \<Rightarrow>
          (if e = FileNotFoundError then
             (if parent p = p then (Inl e, f)
              else (case Path_mkdir f (parent p) of
                      (Inl e', f') \<Rightarrow> (Inl e', f')
                    | (Inr u, f') \<Rightarrow> Path_mkdir_exist_ok f' p))
           else if is_dir f p then (Inr (), f) else (Inl e, f)))"
  by pat_completeness auto
termination
  by (relation "measure (\<lambda>(f, p). length (parts p))")
     (auto simp: parent_def split: if_splits)

declare Path_mkdir.simps [simp del]

section \<open>The module \<^verbatim>\<open>file_ops\<close>\<close>

text \<open>
  What the process gives the module and the module does not change:
  \<^verbatim>\<open>sys.platform\<close>, \<^verbatim>\<open>os.environ\<close>, the home directories, the module's
  \<^verbatim>\<open>__name__\<close> and \<^verbatim>\<open>__file__\<close>, and \<^verbatim>\<open>find_executable\<close> of
  \<^verbatim>\<open>ajt_common.utils\<close>, whose source is not part of these files: it is taken as a
  function from a program name to the path found for it, if any.
\<close>

record proc =
  platform :: string
  environ :: "string \<rightharpoonup> string"
  homes :: "string \<rightharpoonup> string"
  dunder_name :: string
  dunder_file :: string
  find_executable :: "string \<Rightarrow> string option"

text \<open>\<^verbatim>\<open>THIS_ADDON_MODULE = __name__.split(".")[0]\<close>.\<close>

definition THIS_ADDON_MODULE :: "proc \<Rightarrow> string" where
  "THIS_ADDON_MODULE pr = takeWhile (\<lambda>c. c \<noteq> CHR ''.'') (dunder_name pr)"

text \<open>
  \<^verbatim>\<open>walk_parents\<close> is a generator. Its value here is what a consumer can see of it:
  the paths it yields, in order, and the exception that ends it, if one does.
  The loop of the source is \<open>walk_parents_loop\<close>; it stops when \<^verbatim>\<open>samefile\<close> answers
  \<open>True\<close> or raises.
\<close>

function walk_parents_loop :: "fs \<Rightarrow> path \<Rightarrow> path list \<times> error option" where
  "walk_parents_loop f current_dir =
     (case samefile f current_dir (parent current_dir) of
        Inl e \<Rightarrow> ([], Some e)
      | Inr same \<Rightarrow>
          (if same then ([], None)
           else (case walk_parents_loop f (parent current_dir) of
                   (ys, stop) \<Rightarrow> (parent current_dir # ys, stop))))"
  by pat_completeness auto
termination
proof (relation "measure (\<lambda>(f, p). length (parts p))")
  show "wf (measure (\<lambda>(f, p). length (parts p)))" by simp
next
  fix f :: fs and current_dir :: path and same :: bool
  assume s: "samefile f current_dir (parent current_dir) = Inr same" and n: "\<not> same"
  have "parts current_dir \<noteq> []"
  proof
    assume "parts current_dir = []"
    then have "parent current_dir = current_dir" by (simp add: parent_def)
    with s n show False by (auto simp: samefile_def split: sum.splits)
  qed
  then show "((f, parent current_dir), (f, current_dir)) \<in> measure (\<lambda>(f, p). length (parts p))"
    by (simp add: parent_def)
qed

declare walk_parents_loop.simps [simp del]

definition walk_parents :: "fs \<Rightarrow> string \<Rightarrow> path list \<times> error option" where
  "walk_parents f dir_or_file_path =
     (let current_dir = Path_of_str dir_or_file_path in
      case walk_parents_loop f current_dir of
        (ys, stop) \<Rightarrow> ((if is_dir f current_dir then [current_dir] else []) @ ys, stop))"

text \<open>
  \<^verbatim>\<open>touch\<close> and \<^verbatim>\<open>rm_file\<close> take the path as the string \<^verbatim>\<open>os.fspath\<close> makes of
  their argument. A function that changes the file system returns the new one beside
  its result, also when it raises.
\<close>

definition touch :: "fs \<Rightarrow> string \<Rightarrow> (error + unit) \<times> fs" where
  "touch f path =
     (case os_open_append f path of
        Inl e \<Rightarrow> (Inl e, f)
      | Inr f1 \<Rightarrow>
          (case os_utime f1 path of
             Inl e \<Rightarrow> (Inl e, f1)
           | Inr f2 \<Rightarrow> (Inr (), f2)))"

definition rm_file :: "fs \<Rightarrow> string \<Rightarrow> (error + unit) \<times> fs" where
  "rm_file f path =
     (case os_unlink f path of
        Inr f' \<Rightarrow> (Inr (), f')
      | Inl e \<Rightarrow> (if e = FileNotFoundError then (Inr (), f) else (Inl e, f)))"

text \<open>The message \<^verbatim>\<open>f"couldn't find file '{file_name}'"\<close>; \<open>CHR 0x27\<close> is the apostrophe.\<close>

definition not_found_message :: "string \<Rightarrow> string" where
  "not_found_message file_name =
     ''couldn'' @ [CHR 0x27] @ ''t find file '' @ [CHR 0x27] @ file_name @ [CHR 0x27]"

definition find_file_in_parents :: "proc \<Rightarrow> fs \<Rightarrow> string \<Rightarrow> error + path" where
  "find_file_in_parents pr f file_name =
     (case walk_parents f (dunder_file pr) of
        (dirs, stop) \<Rightarrow>
          (case find (\<lambda>parent_dir. is_file f (joinpath parent_dir file_name)) dirs of
             Some parent_dir \<Rightarrow> Inr (joinpath parent_dir file_name)
           | None \<Rightarrow>
               (case stop of
                  Some e \<Rightarrow> Inl e
                | None \<Rightarrow>
                    Inl (RuntimeError (not_found_message file_name)))))"

definition find_config_json :: "proc \<Rightarrow> fs \<Rightarrow> error + path" where
  "find_config_json pr f = find_file_in_parents pr f ''config.json''"

text \<open>
  Python's \<^verbatim>\<open>a or b\<close> on strings that may be \<^verbatim>\<open>None\<close>: the first operand when it
  is a non-empty string, the second otherwise.
\<close>

fun truthy :: "string option \<Rightarrow> bool" where
  "truthy (Some (c # cs)) = True"
| "truthy _ = False"

definition py_or :: "string option \<Rightarrow> 'a \<Rightarrow> (string \<Rightarrow> 'a) \<Rightarrow> 'a" where
  "py_or a b k = (case a of Some (c # cs) \<Rightarrow> k (c # cs) | _ \<Rightarrow> b)"

definition platform_data_home :: "proc \<Rightarrow> string \<Rightarrow> error + path" where
  "platform_data_home pr app_name =
     (if take 5 (platform pr) = ''linux'' then
        (case py_or (environ pr ''XDG_STATE_HOME'')
                (py_or (environ pr ''XDG_DATA_HOME'')
                   (case Path_home (homes pr) of
                      Inl e \<Rightarrow> Inl e
                    | Inr h \<Rightarrow> Inr (str_of_path (joinpath (joinpath h ''.local'') ''share'')))
                   Inr)
                Inr of
           Inl e \<Rightarrow> Inl e
         | Inr base \<Rightarrow> Inr (joinpath (joinpath (Path_of_str base) ''anki-addons'') app_name))
      else if platform pr = ''darwin'' then
        (case Path_home (homes pr) of
           Inl e \<Rightarrow> Inl e
         | Inr h \<Rightarrow>
             Inr (joinpath (joinpath (joinpath (joinpath (joinpath h ''Library'')
                    ''Application Support'') ''Anki'') ''Addons'') app_name))
      else
        (case Path_home (homes pr) of
           Inl e \<Rightarrow> Inl e
         | Inr h \<Rightarrow>
             (let base = (case environ pr ''APPDATA'' of
                            Some v \<Rightarrow> v
                          | None \<Rightarrow> str_of_path (joinpath (joinpath h ''AppData'') ''Roaming''))
              in Inr (joinpath (joinpath (joinpath (Path_of_str base) ''Anki'') ''Addons'')
                        app_name))))"

text \<open>
  The body of \<^verbatim>\<open>user_files_dir\<close>, which \<^verbatim>\<open>functools.cache\<close> wraps
  (\<^verbatim>\<open>user_files_dir.__wrapped__\<close>).
\<close>

definition user_files_dir_wrapped :: "proc \<Rightarrow> fs \<Rightarrow> (error + path) \<times> fs" where
  "user_files_dir_wrapped pr f =
     (if truthy (environ pr ''AJT_USER_FILES_DIR'') then
        (case expanduser (homes pr)
                (Path_of_str (case environ pr ''AJT_USER_FILES_DIR'' of Some v \<Rightarrow> v | None \<Rightarrow> []))
         of
           Inl e \<Rightarrow> (Inl e, f)
         | Inr p \<Rightarrow>
             (case Path_mkdir f p of
                (Inl e, f') \<Rightarrow> (Inl e, f')
              | (Inr u, f') \<Rightarrow> (Inr p, f')))
      else
        (case platform_data_home pr (THIS_ADDON_MODULE pr) of
           Inl e \<Rightarrow> (Inl e, f)
         | Inr p \<Rightarrow>
             (case Path_mkdir f p of
                (Inl e, f') \<Rightarrow> (Inl e, f')
              | (Inr u, f') \<Rightarrow>
                  (if environ pr ''AJT_USE_REPO_USER_FILES'' = Some ''1'' then
                     (case walk_parents f' (dunder_file pr) of
                        (dirs, stop) \<Rightarrow>
                          (case find (\<lambda>parent_dir. is_dir f' (joinpath parent_dir ''user_files''))
                                  dirs of
                             Some parent_dir \<Rightarrow> (Inr (joinpath parent_dir ''user_files''), f')
                           | None \<Rightarrow>
                               (case stop of
                                  Some e \<Rightarrow> (Inl e, f')
                                | None \<Rightarrow> (Inr p, f'))))
                   else (Inr p, f')))))"

text \<open>
  \<^verbatim>\<open>@functools.cache\<close> on a function without arguments: the cache holds at most one
  value; a call that finds it returns it and runs nothing; a call that does not runs
  the body and stores what it returns. An exception is not stored.
\<close>

record world =
  files :: fs
  cache :: "path option"

definition user_files_dir :: "proc \<Rightarrow> world \<Rightarrow> (error + path) \<times> world" where
  "user_files_dir pr w =
     (case cache w of
        Some p \<Rightarrow> (Inr p, w)
      | None \<Rightarrow>
          (case user_files_dir_wrapped pr (files w) of
             (Inl e, f') \<Rightarrow> (Inl e, w\<lparr>files := f'\<rparr>)
           | (Inr p, f') \<Rightarrow> (Inr p, w\<lparr>files := f', cache := Some p\<rparr>)))"

text \<open>
  What \<^verbatim>\<open>open_file\<close> does to the outside: it starts a process with
  \<^verbatim>\<open>subprocess.Popen\<close>, or calls \<^verbatim>\<open>QDesktopServices.openUrl\<close> on
  \<^verbatim>\<open>QUrl.fromLocalFile\<close> of the path inside \<^verbatim>\<open>with no_bundled_libs()\<close>.
  The function itself returns \<^verbatim>\<open>None\<close>.
\<close>

datatype action =
    Popen (args: "string list") (shell: bool) (start_new_session: bool)
  | OpenUrl_no_bundled_libs string

definition open_file :: "proc \<Rightarrow> string \<Rightarrow> action" where
  "open_file pr path =
     (let terminal = environ pr ''TERMINAL'';
          lf = py_or (environ pr ''FILE'') (find_executable pr ''lf'') Some
      in if truthy terminal \<and> truthy lf then
           Popen [case terminal of Some t \<Rightarrow> t | None \<Rightarrow> [], ''-e'',
                  case lf of Some l \<Rightarrow> l | None \<Rightarrow> [], path] False True
         else (case find_executable pr ''xdg-open'' of
                 Some (c # cs) \<Rightarrow> Popen [c # cs, ''file://'' @ path] False True
               | _ \<Rightarrow> OpenUrl_no_bundled_libs path))"

text \<open>\<^verbatim>\<open>st_size\<close>; a directory reports one block, which the module never reads.\<close>

fun st_size :: "node \<Rightarrow> nat" where
  "st_size (File c a m) = length c"
| "st_size Dir = 4096"

text \<open>
  \<^verbatim>\<open>file_exists\<close>: the three operands of \<^verbatim>\<open>and\<close> in order; \<^verbatim>\<open>os.stat\<close> is the only
  one that can raise.
\<close>

definition file_exists :: "fs \<Rightarrow> string \<Rightarrow> error + bool" where
  "file_exists f file_path =
     (if file_path = [] then Inr False
      else if \<not> os_path_isfile f file_path then Inr False
      else (case os_stat f file_path of
              Inl e \<Rightarrow> Inl e
            | Inr (k, n) \<Rightarrow> Inr (0 < st_size n)))"

section \<open>Notions of the specification and a reference configuration\<close>

text \<open>
  The model admits node maps that are no trees. A file system is one when the root is a
  directory and every node lies in a directory; then so does every node above it, up
  to the root.
\<close>

definition tree :: "fs \<Rightarrow> bool" where
  "tree f =
     (nodes f [] = Some Dir \<and> (\<forall>k. nodes f k \<noteq> None \<longrightarrow> nodes f (butlast k) = Some Dir))"

text \<open>
  The file-manager program in the words of the specification: the value of
  \<^verbatim>\<open>FILE\<close> when it is set and not empty, otherwise the executable found under the
  name \<^verbatim>\<open>lf\<close>, when one is found.
\<close>

definition file_manager :: "proc \<Rightarrow> string option" where
  "file_manager pr =
     (case environ pr ''FILE'' of
        Some (c # cs) \<Rightarrow> Some (c # cs)
      | _ \<Rightarrow> (case find_executable pr ''lf'' of Some (c # cs) \<Rightarrow> Some (c # cs) | _ \<Rightarrow> None))"

text \<open>
  What \<^verbatim>\<open>pathlib.Path(s)\<close> can be: one of the three roots, and components that are
  not empty, not \<^verbatim>\<open>.\<close> and free of slashes.
\<close>

definition wf_path :: "path \<Rightarrow> bool" where
  "wf_path p =
     ((root p = [] \<or> root p = ''/'' \<or> root p = ''//'')
      \<and> list_all (\<lambda>x. x \<noteq> [] \<and> x \<noteq> ''.'' \<and> CHR ''/'' \<notin> set x) (parts p))"

text \<open>
  A chain of parents below \<open>p\<close>: the first element is the parent of \<open>p\<close>, each later
  one the parent of the one before it, and every step loses a component.
\<close>

fun parent_chain :: "path \<Rightarrow> path list \<Rightarrow> bool" where
  "parent_chain p [] = True"
| "parent_chain p (y # ys) =
     (y = parent p \<and> length (parts y) < length (parts p) \<and> parent_chain y ys)"

text \<open>
  \<open>dirs_added f f'\<close>: the file system \<open>f'\<close> is \<open>f\<close> with directories added and
  nothing else changed.
\<close>

definition dirs_added :: "fs \<Rightarrow> fs \<Rightarrow> bool" where
  "dirs_added f f' =
     (cwd f' = cwd f \<and> clock f' = clock f
      \<and> (\<forall>x. nodes f' x = nodes f x \<or> (nodes f x = None \<and> nodes f' x = Some Dir)))"

text \<open>
  When \<^verbatim>\<open>mkdir(parents=True, exist_ok=True)\<close> cannot fail in the model: the
  directory the path starts from (the root, or the working directory for a relative
  path) exists, no component is \<^verbatim>\<open>..\<close>, and no regular file stands at the path or
  at a prefix of it.
\<close>

fun file_free :: "node option \<Rightarrow> bool" where
  "file_free (Some (File c a m)) = False"
| "file_free _ = True"

fun clear_way :: "(string list \<rightharpoonup> node) \<Rightarrow> string list \<Rightarrow> string list \<Rightarrow> bool" where
  "clear_way ns cur [] = file_free (ns cur)"
| "clear_way ns cur (c # cs) = (file_free (ns cur) \<and> c \<noteq> ''..'' \<and> clear_way ns (cur @ [c]) cs)"

definition path_base :: "fs \<Rightarrow> path \<Rightarrow> string list" where
  "path_base f p = (if root p = [] then cwd f else [])"

definition can_mkdir :: "fs \<Rightarrow> path \<Rightarrow> bool" where
  "can_mkdir f p =
     (nodes f (path_base f p) = Some Dir \<and> clear_way (nodes f) (path_base f p) (parts p))"

text \<open>
  The Linux base directory. \<open>default_base\<close> is the default of the source,
  \<^verbatim>\<open>str(Path.home() / ".local" / "share")\<close>. \<open>first_set_base\<close> follows the words of
  claim C4, the first set value among \<^verbatim>\<open>XDG_STATE_HOME\<close>, \<^verbatim>\<open>XDG_DATA_HOME\<close> and the
  default; \<open>first_nonempty_base\<close> is the first among them that is set and not empty.
  \<open>addon_dir\<close> joins a base with \<^verbatim>\<open>anki-addons\<close> and the name of the add-on.
\<close>

definition default_base :: "proc \<Rightarrow> error + string" where
  "default_base pr =
     (case Path_home (homes pr) of
        Inl e \<Rightarrow> Inl e
      | Inr h \<Rightarrow> Inr (str_of_path (joinpath (joinpath h ''.local'') ''share'')))"

definition first_set_base :: "proc \<Rightarrow> error + string" where
  "first_set_base pr =
     (case environ pr ''XDG_STATE_HOME'' of
        Some v \<Rightarrow> Inr v
      | None \<Rightarrow> (case environ pr ''XDG_DATA_HOME'' of Some v \<Rightarrow> Inr v | None \<Rightarrow> default_base pr))"

definition first_nonempty_base :: "proc \<Rightarrow> error + string" where
  "first_nonempty_base pr =
     (case environ pr ''XDG_STATE_HOME'' of
        Some (c # cs) \<Rightarrow> Inr (c # cs)
      | _ \<Rightarrow> (case environ pr ''XDG_DATA_HOME'' of
                Some (c # cs) \<Rightarrow> Inr (c # cs)
              | _ \<Rightarrow> default_base pr))"

definition addon_dir :: "proc \<Rightarrow> string \<Rightarrow> path" where
  "addon_dir pr base = joinpath (joinpath (Path_of_str base) ''anki-addons'') (THIS_ADDON_MODULE pr)"


text \<open>
  A small file system and process on which the theorems are instantiated: a home
  directory with one file with content and one empty file, and the add-on checked out
  under it.
\<close>

definition ex_fs :: fs where
  "ex_fs = \<lparr>cwd = [''home'', ''u''], clock = 7,
     nodes = [[] \<mapsto> Dir, [''home''] \<mapsto> Dir, [''home'', ''u''] \<mapsto> Dir,
              [''home'', ''u'', ''notes.txt''] \<mapsto> File ''abc'' 1 2,
              [''home'', ''u'', ''empty.txt''] \<mapsto> File [] 3 4,
              [''home'', ''u'', ''japanese''] \<mapsto> Dir,
              [''home'', ''u'', ''japanese'', ''config.json''] \<mapsto> File ''{}'' 5 6,
              [''home'', ''u'', ''japanese'', ''user_files''] \<mapsto> Dir,
              [''home'', ''u'', ''japanese'', ''helpers''] \<mapsto> Dir,
              [''home'', ''u'', ''japanese'', ''helpers'', ''file_ops.py''] \<mapsto> File ''#'' 5 6]\<rparr>"

definition ex_proc :: proc where
  "ex_proc = \<lparr>platform = ''linux'', environ = Map.empty, homes = [[] \<mapsto> ''/home/u''],
     dunder_name = ''japanese.helpers.file_ops'',
     dunder_file = ''/home/u/japanese/helpers/file_ops.py'',
     find_executable = (\<lambda>n. None)\<rparr>"

definition ex_world :: world where
  "ex_world = \<lparr>files = ex_fs, cache = None\<rparr>"

section \<open>Path walks\<close>

lemma truthy_iff: "truthy x = (\<exists>v. x = Some v \<and> v \<noteq> [])"
  by (cases x rule: truthy.cases) auto


lemma walk_grow:
  "walk ns cur cs = Inr k \<Longrightarrow> (\<And>x. ns x = Some Dir \<Longrightarrow> ns' x = Some Dir) \<Longrightarrow>
     walk ns' cur cs = Inr k"
proof (induction cs arbitrary: cur)
  case Nil
  then show ?case by simp
next
  case (Cons c cs)
  from Cons.prems(1) have d: "ns cur = Some Dir"
    by (auto split: option.splits node.splits)
  then have "ns' cur = Some Dir" using Cons.prems(2) by simp
  with d Cons show ?case by simp
qed

lemma walk_append:
  "walk ns cur (cs @ ds) = (case walk ns cur cs of Inl e \<Rightarrow> Inl e | Inr k \<Rightarrow> walk ns k ds)"
  by (induction cs arbitrary: cur) (auto split: option.splits node.splits)

lemma walk_last_dir:
  "walk ns cur cs = Inr k \<Longrightarrow> cs \<noteq> [] \<Longrightarrow>
     \<exists>j. walk ns cur (butlast cs) = Inr j \<and> ns j = Some Dir \<and> k = enter j (last cs)"
proof -
  assume w: "walk ns cur cs = Inr k" and ne: "cs \<noteq> []"
  then have "cs = butlast cs @ [last cs]" by simp
  then have "walk ns cur cs = (case walk ns cur (butlast cs) of Inl e \<Rightarrow> Inl e | Inr j \<Rightarrow> walk ns j [last cs])"
    using walk_append [of ns cur "butlast cs" "[last cs]"] by simp
  with w show ?thesis by (auto split: sum.splits option.splits node.splits)
qed

lemma os_comps_nil_must_dir: "s \<noteq> [] \<Longrightarrow> os_comps s = [] \<Longrightarrow> must_dir s"
proof (induction s)
  case Nil then show ?case by simp
next
  case (Cons c s)
  show ?case
  proof (cases "c = CHR ''/''")
    case True
    show ?thesis
    proof (cases "s = []")
      case True with \<open>c = CHR ''/''\<close> show ?thesis by (simp add: must_dir_def)
    next
      case False
      from Cons.prems True have "os_comps s = []" by (simp add: os_comps_def)
      with False Cons.IH have "must_dir s" by simp
      with False show ?thesis by (simp add: must_dir_def)
    qed
  next
    case False
    with Cons.prems show ?thesis by (auto simp: os_comps_def split: list.splits)
  qed
qed

text \<open>In a tree, a path whose last component is special leads to a directory.\<close>

lemma special_target:
  assumes t: "tree f" and w: "os_walk f s = Inr k" and sp: "last_special s"
  shows "nodes f k = Some Dir"
proof (cases "os_comps s = []")
  case True
  from w have ne: "s \<noteq> []" by (auto simp: os_walk_def split: if_splits)
  with True have "must_dir s" by (simp add: os_comps_nil_must_dir)
  have "take 1 s = ''/''"
  proof (cases s)
    case Nil with ne show ?thesis by simp
  next
    case (Cons c cs)
    with True show ?thesis by (auto simp: os_comps_def split: if_splits list.splits)
  qed
  with w True ne have "k = []" by (simp add: os_walk_def os_start_def)
  with t show ?thesis by (simp add: tree_def)
next
  case False
  from w have w': "walk (nodes f) (os_start f s) (os_comps s) = Inr k"
    by (auto simp: os_walk_def split: if_splits)
  from walk_last_dir [OF w' False] obtain j where
    j: "nodes f j = Some Dir" "k = enter j (last (os_comps s))" by blast
  from sp False have "last (os_comps s) = ''.'' \<or> last (os_comps s) = ''..''"
    by (simp add: last_special_def)
  then have "k = j \<or> k = butlast j" using j(2) by (auto simp: enter_def)
  moreover from t j(1) have "nodes f (butlast j) = Some Dir" by (simp add: tree_def)
  ultimately show ?thesis using j(1) by auto
qed

lemma os_walk_grow:
  "os_walk f s = Inr k \<Longrightarrow> cwd f' = cwd f \<Longrightarrow>
     (\<And>x. nodes f x = Some Dir \<Longrightarrow> nodes f' x = Some Dir) \<Longrightarrow> os_walk f' s = Inr k"
  by (auto simp: os_walk_def os_start_def split: if_splits intro: walk_grow)

lemma tree_ex_fs: "tree ex_fs"
  by (auto simp: tree_def ex_fs_def split: if_splits)

lemmas os_eval = os_stat_def os_walk_def os_start_def os_comps_def must_dir_def last_special_def
  enter_def os_mkdir_def os_open_append_def os_utime_def os_unlink_def os_path_isfile_def

lemma os_stat_cases:
  "os_stat f s = Inl e \<Longrightarrow>
     os_walk f s = Inl e \<or>
     (\<exists>k. os_walk f s = Inr k \<and>
        (nodes f k = None \<and> e = FileNotFoundError \<or>
         (\<exists>c a m. nodes f k = Some (File c a m)) \<and> must_dir s \<and> e = NotADirectoryError))"
  by (auto simp: os_stat_def split: sum.splits option.splits node.splits if_splits)

lemma os_stat_Inr:
  "os_stat f s = Inr (k, n) \<Longrightarrow>
     os_walk f s = Inr k \<and> nodes f k = Some n \<and> (n = Dir \<or> \<not> must_dir s)"
  by (auto simp: os_stat_def split: sum.splits option.splits node.splits if_splits)

lemma touch_result:
  assumes w: "os_walk f s = Inr k" and nd: "\<not> must_dir s" and ns: "\<not> last_special s"
    and n: "nodes f k \<noteq> Some Dir"
  shows "touch f s =
     (Inr (), f\<lparr>nodes := (nodes f)(k \<mapsto>
        File (case nodes f k of None \<Rightarrow> [] | Some n \<Rightarrow> content n) (clock f) (clock f))\<rparr>)"
proof -
  show ?thesis
  proof (cases "nodes f k")
    case None
    let ?f1 = "f\<lparr>nodes := (nodes f)(k \<mapsto> File [] (clock f) (clock f))\<rparr>"
    from w None nd ns have o: "os_open_append f s = Inr ?f1"
      by (simp add: os_open_append_def)
    have "os_walk ?f1 s = Inr k" using w by (rule os_walk_grow) (auto simp: None)
    with nd have "os_stat ?f1 s = Inr (k, File [] (clock f) (clock f))"
      by (simp add: os_stat_def)
    then have "os_utime ?f1 s = Inr ?f1" by (simp add: os_utime_def)
    with o None show ?thesis by (simp add: touch_def)
  next
    case (Some x)
    with n obtain c a m where x: "x = File c a m" by (cases x) auto
    from w Some x nd have o: "os_open_append f s = Inr f" by (simp add: os_open_append_def)
    from w Some x nd have "os_stat f s = Inr (k, File c a m)" by (simp add: os_stat_def)
    then have "os_utime f s = Inr (f\<lparr>nodes := (nodes f)(k \<mapsto> File c (clock f) (clock f))\<rparr>)"
      by (simp add: os_utime_def)
    with o Some x show ?thesis by (simp add: touch_def)
  qed
qed

section \<open>Paths as the kernel reads them\<close>

lemma split_sep_not_Nil [simp]: "split_sep s \<noteq> []"
  by (induction s) (auto split: list.splits)

lemma split_sep_no_slash: "x \<in> set (split_sep s) \<Longrightarrow> CHR ''/'' \<notin> set x"
  by (induction s arbitrary: x) (auto split: list.splits if_splits)

lemma split_sep_plain: "CHR ''/'' \<notin> set x \<Longrightarrow> split_sep x = [x]"
  by (induction x) auto

lemma split_sep_append:
  "CHR ''/'' \<notin> set x \<Longrightarrow> split_sep (x @ CHR ''/'' # s) = x # split_sep s"
  by (induction x) auto

lemma split_sep_join:
  "ps \<noteq> [] \<Longrightarrow> \<forall>x\<in>set ps. CHR ''/'' \<notin> set x \<Longrightarrow> split_sep (join_sep ps) = ps"
proof (induction ps rule: join_sep.induct)
  case 1 then show ?case by simp
next
  case (2 x) then show ?case by (simp add: split_sep_plain)
next
  case (3 x y ys)
  then show ?case by (simp add: split_sep_append)
qed

lemma wf_path_of_str: "wf_path (Path_of_str s)"
proof -
  obtain r rel where sr: "splitroot s = (r, rel)" by (cases "splitroot s")
  then have "r = [] \<or> r = ''/'' \<or> r = ''//''"
    by (cases s rule: splitroot.cases) (auto split: list.splits if_splits)
  moreover have "list_all (\<lambda>x. x \<noteq> [] \<and> x \<noteq> ''.'' \<and> CHR ''/'' \<notin> set x) (split_parts rel)"
    by (auto simp: split_parts_def list_all_iff dest: split_sep_no_slash)
  ultimately show ?thesis by (simp add: wf_path_def Path_of_str_def sr)
qed

lemma wf_path_parent: "wf_path p \<Longrightarrow> wf_path (parent p)"
  by (auto simp: wf_path_def parent_def list_all_iff dest: in_set_butlastD)

lemma join_sep_last_not_slash:
  "ps \<noteq> [] \<Longrightarrow> \<forall>x\<in>set ps. x \<noteq> [] \<and> CHR ''/'' \<notin> set x \<Longrightarrow>
     join_sep ps \<noteq> [] \<and> last (join_sep ps) \<noteq> CHR ''/''"
proof (induction ps rule: join_sep.induct)
  case 1 then show ?case by simp
next
  case (2 x)
  then have x: "x \<noteq> []" "CHR ''/'' \<notin> set x" by auto
  from x have "last x \<noteq> CHR ''/''" by (metis last_in_set)
  with x show ?case by simp
next
  case (3 x y ys) then show ?case by simp
qed

text \<open>What the kernel reads in the string of a well-formed path.\<close>

lemma os_comps_str:
  assumes "wf_path p"
  shows "os_comps (str_of_path p) = (if root p = [] \<and> parts p = [] then [''.''] else parts p)"
proof (cases "parts p = []")
  case True
  with assms show ?thesis by (auto simp: wf_path_def str_of_path_def os_comps_def)
next
  case False
  from assms have ns: "\<forall>x\<in>set (parts p). CHR ''/'' \<notin> set x" and ne: "\<forall>x\<in>set (parts p). x \<noteq> []"
    by (auto simp: wf_path_def list_all_iff)
  from False ns have sj: "split_sep (join_sep (parts p)) = parts p" by (rule split_sep_join)
  from ne have fl: "filter (\<lambda>x. x \<noteq> []) (parts p) = parts p" by (simp add: filter_id_conv)
  from assms have "root p = [] \<or> root p = ''/'' \<or> root p = ''//''" by (simp add: wf_path_def)
  with False sj fl show ?thesis by (auto simp: str_of_path_def os_comps_def)
qed

lemma os_start_str:
  assumes "wf_path p"
  shows "os_start f (str_of_path p) = (if root p = [] then cwd f else [])"
proof (cases "root p = []")
  case False
  with assms show ?thesis by (auto simp: wf_path_def str_of_path_def os_start_def)
next
  case True
  show ?thesis
  proof (cases "parts p")
    case Nil with True show ?thesis by (simp add: str_of_path_def os_start_def)
  next
    case (Cons x xs)
    with assms have "x \<noteq> []" "CHR ''/'' \<notin> set x" by (auto simp: wf_path_def)
    then obtain c cs where "x = c # cs" "c \<noteq> CHR ''/''" by (cases x) auto
    with True Cons show ?thesis by (cases xs) (auto simp: str_of_path_def os_start_def)
  qed
qed

lemma must_dir_str:
  assumes "wf_path p"
  shows "must_dir (str_of_path p) = (parts p = [] \<and> root p \<noteq> [])"
proof (cases "parts p = []")
  case True
  with assms show ?thesis by (auto simp: wf_path_def str_of_path_def must_dir_def)
next
  case False
  from assms have "\<forall>x\<in>set (parts p). x \<noteq> [] \<and> CHR ''/'' \<notin> set x"
    by (auto simp: wf_path_def list_all_iff)
  from join_sep_last_not_slash [OF False this] False show ?thesis
    by (simp add: str_of_path_def must_dir_def)
qed

lemma str_of_path_not_Nil: "wf_path p \<Longrightarrow> str_of_path p \<noteq> []"
proof (cases "parts p = []")
  case True
  assume "wf_path p" with True show ?thesis by (auto simp: str_of_path_def)
next
  case False
  assume "wf_path p"
  then have "\<forall>x\<in>set (parts p). x \<noteq> [] \<and> CHR ''/'' \<notin> set x"
    by (auto simp: wf_path_def list_all_iff)
  from join_sep_last_not_slash [OF False this] False show ?thesis
    by (simp add: str_of_path_def)
qed

lemma path_stat:
  assumes "wf_path p"
  shows "os_stat f (str_of_path p) =
     (case walk (nodes f) (if root p = [] then cwd f else [])
             (if root p = [] \<and> parts p = [] then [''.''] else parts p) of
        Inl e \<Rightarrow> Inl e
      | Inr k \<Rightarrow>
          (case nodes f k of
             None \<Rightarrow> Inl FileNotFoundError
           | Some Dir \<Rightarrow> Inr (k, Dir)
           | Some (File c a m) \<Rightarrow>
               (if parts p = [] \<and> root p \<noteq> [] then Inl NotADirectoryError
                else Inr (k, File c a m))))"
  unfolding os_stat_def os_walk_def os_comps_str [OF assms] os_start_str [OF assms]
    must_dir_str [OF assms]
  using str_of_path_not_Nil [OF assms] by simp

lemma parent_exists:
  assumes wf: "wf_path p" and ne: "parts p \<noteq> []"
    and st: "os_stat f (str_of_path p) = Inr (k, n)"
  shows "\<exists>j. os_stat f (str_of_path (parent p)) = Inr (j, Dir) \<and> k = enter j (last (parts p))"
proof -
  let ?start = "if root p = [] then cwd f else []"
  from st ne have w: "walk (nodes f) ?start (parts p) = Inr k"
    by (auto simp: path_stat [OF wf] split: sum.splits option.splits node.splits if_splits)
  from walk_last_dir [OF w ne] obtain j where
    j: "walk (nodes f) ?start (butlast (parts p)) = Inr j" "nodes f j = Some Dir"
       "k = enter j (last (parts p))" by blast
  have wfp: "wf_path (parent p)" using wf by (rule wf_path_parent)
  have rp: "root (parent p) = root p" "parts (parent p) = butlast (parts p)"
    using ne by (simp_all add: parent_def)
  have "os_stat f (str_of_path (parent p)) = Inr (j, Dir)"
  proof (cases "root p = [] \<and> butlast (parts p) = []")
    case True
    with j have "j = cwd f" "nodes f (cwd f) = Some Dir" by auto
    with True rp show ?thesis by (simp add: path_stat [OF wfp] enter_def)
  next
    case False
    with j rp show ?thesis by (auto simp: path_stat [OF wfp])
  qed
  with j(3) show ?thesis by blast
qed

lemma samefile_self: "samefile f p p \<noteq> Inr False"
  by (auto simp: samefile_def split: sum.splits)



lemma loop_spec:
  "wf_path p \<Longrightarrow> os_stat f (str_of_path p) = Inr (k, n) \<Longrightarrow>
     \<exists>ys. walk_parents_loop f p = (ys, None) \<and> parent_chain p ys
        \<and> (\<forall>y\<in>set ys. is_dir f y) \<and> wf_path (last (p # ys))
        \<and> samefile f (last (p # ys)) (parent (last (p # ys))) = Inr True"
proof (induction f p arbitrary: k n rule: walk_parents_loop.induct)
  case (1 f p)
  note wf = \<open>wf_path p\<close> and st = \<open>os_stat f (str_of_path p) = Inr (k, n)\<close>
  have "\<exists>j d. os_stat f (str_of_path (parent p)) = Inr (j, d) \<and> (parts p \<noteq> [] \<longrightarrow> d = Dir)"
  proof (cases "parts p = []")
    case True
    then have "parent p = p" by (simp add: parent_def)
    with st True show ?thesis by auto
  next
    case False
    from parent_exists [OF wf False st] False show ?thesis by blast
  qed
  then obtain j d where pj: "os_stat f (str_of_path (parent p)) = Inr (j, d)"
    and pd: "parts p \<noteq> [] \<longrightarrow> d = Dir" by blast
  from st pj have sf: "samefile f p (parent p) = Inr (k = j)" by (simp add: samefile_def)
  show ?case
  proof (cases "k = j")
    case True
    with sf wf show ?thesis by (simp add: walk_parents_loop.simps [of f p])
  next
    case False
    have ne: "parts p \<noteq> []"
    proof
      assume "parts p = []"
      then have "parent p = p" by (simp add: parent_def)
      with sf False show False using samefile_self [of f p] by simp
    qed
    with pd have d: "d = Dir" by simp
    from sf False have sf': "samefile f p (parent p) = Inr False" by simp
    from "1.IH" [OF sf' _ wf_path_parent [OF wf] pj] obtain ys where
      ys: "walk_parents_loop f (parent p) = (ys, None)" "parent_chain (parent p) ys"
          "\<forall>y\<in>set ys. is_dir f y" "wf_path (last (parent p # ys))"
          "samefile f (last (parent p # ys)) (parent (last (parent p # ys))) = Inr True"
      by auto
    from sf' ys(1) have l: "walk_parents_loop f p = (parent p # ys, None)"
      by (simp add: walk_parents_loop.simps [of f p])
    from pj d have "is_dir f (parent p)" by (simp add: is_dir_def)
    moreover from ne have "length (parts (parent p)) < length (parts p)"
      by (simp add: parent_def)
    ultimately show ?thesis using l ys by auto
  qed
qed


lemma find_split:
  "find P xs = Some x \<Longrightarrow> \<exists>ds ds'. xs = ds @ x # ds' \<and> P x \<and> (\<forall>y\<in>set ds. \<not> P y)"
proof (induction xs)
  case Nil then show ?case by simp
next
  case (Cons a xs)
  show ?case
  proof (cases "P a")
    case True
    with Cons.prems have "a = x" by simp
    with True have "a # xs = [] @ x # xs \<and> P x \<and> (\<forall>y\<in>set []. \<not> P y)" by simp
    then show ?thesis by blast
  next
    case False
    with Cons obtain ds ds' where "xs = ds @ x # ds'" "P x" "\<forall>y\<in>set ds. \<not> P y" by auto
    with False have "a # xs = (a # ds) @ x # ds' \<and> P x \<and> (\<forall>y\<in>set (a # ds). \<not> P y)" by simp
    then show ?thesis by blast
  qed
qed

lemma walk_parents_existing:
  assumes st: "os_stat f (str_of_path (Path_of_str s)) = Inr (k, n)"
  shows "\<exists>ys. walk_parents f s = ((if is_dir f (Path_of_str s) then [Path_of_str s] else []) @ ys, None)
     \<and> parent_chain (Path_of_str s) ys"
proof -
  from loop_spec [OF wf_path_of_str st] obtain ys where
    "walk_parents_loop f (Path_of_str s) = (ys, None)" "parent_chain (Path_of_str s) ys" by blast
  then show ?thesis by (auto simp: walk_parents_def)
qed

section \<open>Creating directories\<close>

lemma dirs_added_refl: "dirs_added f f"
  by (simp add: dirs_added_def)

lemma dirs_added_trans: "dirs_added f g \<Longrightarrow> dirs_added g h \<Longrightarrow> dirs_added f h"
  unfolding dirs_added_def by (metis option.distinct(1))

lemma os_mkdir_Inr:
  assumes "os_mkdir f s = Inr f'"
  shows "\<exists>k. os_walk f s = Inr k \<and> nodes f k = None \<and> f' = f\<lparr>nodes := (nodes f)(k \<mapsto> Dir)\<rparr>
           \<and> os_stat f' s = Inr (k, Dir)"
proof -
  from assms obtain k where w: "os_walk f s = Inr k" and n: "nodes f k = None"
    and f': "f' = f\<lparr>nodes := (nodes f)(k \<mapsto> Dir)\<rparr>"
    by (auto simp: os_mkdir_def split: sum.splits if_splits)
  have "os_walk f' s = Inr k" using w by (rule os_walk_grow) (auto simp: f')
  then have "os_stat f' s = Inr (k, Dir)" by (simp add: os_stat_def f')
  with w n f' show ?thesis by blast
qed

lemma os_mkdir_dirs_added: "os_mkdir f s = Inr f' \<Longrightarrow> dirs_added f f'"
  by (drule os_mkdir_Inr) (auto simp: dirs_added_def split: if_splits)

lemma os_mkdir_is_dir: "os_mkdir f (str_of_path p) = Inr f' \<Longrightarrow> is_dir f' p"
  by (drule os_mkdir_Inr) (auto simp: is_dir_def)

lemma Path_mkdir_exist_ok_is_dir: "Path_mkdir_exist_ok f p = (Inr u, f') \<Longrightarrow> is_dir f' p"
  by (auto simp: Path_mkdir_exist_ok_def os_mkdir_is_dir split: sum.splits if_splits)

lemma Path_mkdir_exist_ok_dirs_added: "Path_mkdir_exist_ok f p = (r, f') \<Longrightarrow> dirs_added f f'"
  by (auto simp: Path_mkdir_exist_ok_def os_mkdir_dirs_added dirs_added_refl
      split: sum.splits if_splits)

lemma Path_mkdir_is_dir: "Path_mkdir f p = (Inr u, f') \<Longrightarrow> is_dir f' p"
  by (subst (asm) Path_mkdir.simps)
     (auto simp: os_mkdir_is_dir Path_mkdir_exist_ok_is_dir
        split: sum.splits if_splits prod.splits)

lemma Path_mkdir_dirs_added: "Path_mkdir f p = (r, f') \<Longrightarrow> dirs_added f f'"
proof (induction f p arbitrary: r f' rule: Path_mkdir.induct)
  case (1 f p)
  show ?case
  proof (cases "os_mkdir f (str_of_path p)")
    case (Inr g)
    with "1.prems" have "f' = g" by (simp add: Path_mkdir.simps [of f p])
    with Inr show ?thesis by (simp add: os_mkdir_dirs_added)
  next
    case (Inl e)
    show ?thesis
    proof (cases "e = FileNotFoundError \<and> parent p \<noteq> p")
      case False
      with Inl "1.prems" have "f' = f"
        by (auto simp: Path_mkdir.simps [of f p] split: if_splits)
      then show ?thesis by (simp add: dirs_added_refl)
    next
      case True
      obtain r1 f1 where m: "Path_mkdir f (parent p) = (r1, f1)" by (cases "Path_mkdir f (parent p)")
      from "1.IH" [OF Inl _ _ m] True have a: "dirs_added f f1" by simp
      show ?thesis
      proof (cases r1)
        case (Inl e1)
        with m True \<open>os_mkdir f (str_of_path p) = Inl e\<close> "1.prems" have "f' = f1"
          by (simp add: Path_mkdir.simps [of f p])
        with a show ?thesis by simp
      next
        case (Inr u)
        with m True \<open>os_mkdir f (str_of_path p) = Inl e\<close> "1.prems"
        have "Path_mkdir_exist_ok f1 p = (r, f')"
          by (simp add: Path_mkdir.simps [of f p])
        then have "dirs_added f1 f'" by (rule Path_mkdir_exist_ok_dirs_added)
        with a show ?thesis by (rule dirs_added_trans)
      qed
    qed
  qed
qed

lemma file_free_iff: "file_free x = (x = None \<or> x = Some Dir)"
  by (cases x rule: file_free.cases) auto

lemma clear_way_append:
  "clear_way ns cur (qs @ [c]) =
     (clear_way ns cur qs \<and> c \<noteq> ''..'' \<and> file_free (ns (cur @ qs @ [c])))"
  by (induction qs arbitrary: cur) auto

lemma clear_way_end: "clear_way ns cur cs \<Longrightarrow> file_free (ns (cur @ cs))"
proof (induction cs arbitrary: cur)
  case Nil then show ?case by simp
next
  case (Cons c cs)
  from Cons.prems have "clear_way ns (cur @ [c]) cs" by simp
  from Cons.IH [OF this] show ?case by simp
qed

lemma clear_way_mono:
  "clear_way ns cur cs \<Longrightarrow> (\<And>x. file_free (ns x) \<Longrightarrow> file_free (ns' x)) \<Longrightarrow> clear_way ns' cur cs"
  by (induction cs arbitrary: cur) auto

lemma clear_way_dirs_added:
  assumes d: "dirs_added f g" and c: "clear_way (nodes f) cur cs"
  shows "clear_way (nodes g) cur cs"
  using c
proof (rule clear_way_mono)
  fix x assume ff: "file_free (nodes f x)"
  from d have "nodes g x = nodes f x \<or> nodes g x = Some Dir" by (auto simp: dirs_added_def)
  with ff show "file_free (nodes g x)" by auto
qed

text \<open>On a clear way the walk arrives, or stops at a missing directory.\<close>

lemma walk_clear:
  "clear_way ns cur cs \<Longrightarrow> \<forall>c\<in>set cs. c \<noteq> ''.'' \<Longrightarrow>
     walk ns cur cs = Inr (cur @ cs) \<or> walk ns cur cs = Inl FileNotFoundError"
proof (induction cs arbitrary: cur)
  case Nil then show ?case by simp
next
  case (Cons c cs)
  from Cons.prems have ff: "file_free (ns cur)" and c: "c \<noteq> ''..''" "c \<noteq> ''.''"
    and cw: "clear_way ns (cur @ [c]) cs" and pl: "\<forall>c\<in>set cs. c \<noteq> ''.''" by auto
  from ff show ?case
  proof (cases "ns cur")
    case None then show ?thesis by simp
  next
    case (Some x)
    with ff have "x = Dir" by (simp add: file_free_iff)
    with Some c Cons.IH [OF cw pl] show ?thesis by (simp add: enter_def)
  qed
qed

lemma path_walk:
  assumes "wf_path p"
  shows "os_walk f (str_of_path p) =
     walk (nodes f) (path_base f p) (if root p = [] \<and> parts p = [] then [''.''] else parts p)"
  unfolding os_walk_def os_comps_str [OF assms] os_start_str [OF assms] path_base_def
  using str_of_path_not_Nil [OF assms] by simp

lemma path_last_special:
  assumes "wf_path p"
  shows "last_special (str_of_path p) = (parts p = [] \<or> last (parts p) = ''..'')"
proof -
  have "last (parts p) \<noteq> ''.''" if "parts p \<noteq> []"
    using assms that by (auto simp: wf_path_def list_all_iff)
  then show ?thesis
    unfolding last_special_def os_comps_str [OF assms] by auto
qed

lemma wf_path_plain: "wf_path p \<Longrightarrow> \<forall>c\<in>set (parts p). c \<noteq> ''.''"
  by (auto simp: wf_path_def list_all_iff)

lemma dirs_added_node:
  "dirs_added f g \<Longrightarrow> nodes g x = nodes f x \<or> (nodes f x = None \<and> nodes g x = Some Dir)"
  by (simp add: dirs_added_def)

lemma dirs_added_Dir: "dirs_added f g \<Longrightarrow> nodes f x = Some Dir \<Longrightarrow> nodes g x = Some Dir"
  using dirs_added_node [of f g x] by auto

lemma is_dir_iff: "is_dir f p = (\<exists>k. os_stat f (str_of_path p) = Inr (k, Dir))"
proof (cases "os_stat f (str_of_path p)")
  case (Inl e) then show ?thesis by (simp add: is_dir_def)
next
  case (Inr x)
  obtain k n where "x = (k, n)" by (cases x)
  with Inr show ?thesis by (cases n) (auto simp: is_dir_def)
qed

lemma mkdir_step:
  assumes wf: "wf_path p" and ne: "parts p \<noteq> []"
    and cw: "clear_way (nodes f) (path_base f p) (parts p)"
    and w: "os_walk f (str_of_path p) = Inr k"
  shows "\<exists>f'. Path_mkdir_exist_ok f p = (Inr (), f') \<and> os_mkdir f (str_of_path p) \<noteq> Inl FileNotFoundError"
proof -
  from ne obtain qs c where ps: "parts p = qs @ [c]" by (cases "parts p" rule: rev_cases) auto
  from cw ps have c: "c \<noteq> ''..''" by (simp add: clear_way_append)
  with ps have ns: "\<not> last_special (str_of_path p)" by (simp add: path_last_special [OF wf])
  from w ne have "walk (nodes f) (path_base f p) (parts p) = Inr k"
    by (simp add: path_walk [OF wf])
  with walk_clear [OF cw wf_path_plain [OF wf]] have k: "k = path_base f p @ parts p" by auto
  with clear_way_end [OF cw] have ff: "file_free (nodes f k)" by simp
  show ?thesis
  proof (cases "nodes f k")
    case None
    with w ns show ?thesis by (simp add: Path_mkdir_exist_ok_def os_mkdir_def)
  next
    case (Some x)
    with ff have "x = Dir" by (simp add: file_free_iff)
    with Some w have "is_dir f p" by (simp add: is_dir_def os_stat_def)
    with Some w show ?thesis by (simp add: Path_mkdir_exist_ok_def os_mkdir_def)
  qed
qed

lemma Path_mkdir_succeeds:
  assumes wf: "wf_path p" and cm: "can_mkdir f p"
  shows "\<exists>f'. Path_mkdir f p = (Inr (), f')"
  using wf cm
proof (induction "parts p" arbitrary: p rule: rev_induct)
  case Nil
  then have e: "parts p = []" by simp
  from Nil.prems have b: "nodes f (path_base f p) = Some Dir" by (simp add: can_mkdir_def)
  from e b have w: "os_walk f (str_of_path p) = Inr (path_base f p)"
    by (simp add: path_walk [OF Nil.prems(1)] enter_def)
  from e have sp: "last_special (str_of_path p)" by (simp add: path_last_special [OF Nil.prems(1)])
  from w sp have m: "os_mkdir f (str_of_path p) = Inl FileExistsError" by (simp add: os_mkdir_def)
  from w b have "is_dir f p" by (simp add: is_dir_def os_stat_def)
  with m show ?case by (simp add: Path_mkdir.simps [of f p])
next
  case (snoc c qs)
  note wf = snoc.prems(1)
  from snoc.hyps(2) have ps: "parts p = qs @ [c]" by simp
  then have ne: "parts p \<noteq> []" by simp
  from snoc.prems(2) have b: "nodes f (path_base f p) = Some Dir"
    and cw: "clear_way (nodes f) (path_base f p) (parts p)" by (simp_all add: can_mkdir_def)
  have ow: "os_walk f (str_of_path p) = walk (nodes f) (path_base f p) (parts p)"
    using ne by (simp add: path_walk [OF wf])
  from walk_clear [OF cw wf_path_plain [OF wf]]
  show ?case
  proof
    assume "walk (nodes f) (path_base f p) (parts p) = Inr (path_base f p @ parts p)"
    with ow have w: "os_walk f (str_of_path p) = Inr (path_base f p @ parts p)" by simp
    from mkdir_step [OF wf ne cw w] obtain f' where
      "Path_mkdir_exist_ok f p = (Inr (), f')" "os_mkdir f (str_of_path p) \<noteq> Inl FileNotFoundError"
      by blast
    then show ?thesis
      by (auto simp: Path_mkdir.simps [of f p] Path_mkdir_exist_ok_def split: sum.splits if_splits)
  next
    assume "walk (nodes f) (path_base f p) (parts p) = Inl FileNotFoundError"
    with ow have m: "os_mkdir f (str_of_path p) = Inl FileNotFoundError" by (simp add: os_mkdir_def)
    have pp: "parts (parent p) = qs" "root (parent p) = root p" using ps by (simp_all add: parent_def)
    then have pne: "parent p \<noteq> p" using ps by auto
    have pb: "path_base f (parent p) = path_base f p" using pp by (simp add: path_base_def)
    from cw ps have "clear_way (nodes f) (path_base f p) qs" by (simp add: clear_way_append)
    with b pb pp have "can_mkdir f (parent p)" by (simp add: can_mkdir_def)
    from snoc.hyps(1) [OF pp(1) [symmetric] wf_path_parent [OF wf] this] obtain f1 where
      m1: "Path_mkdir f (parent p) = (Inr (), f1)" by blast
    from Path_mkdir_is_dir [OF m1] have d1: "is_dir f1 (parent p)" .
    from Path_mkdir_dirs_added [OF m1] have da: "dirs_added f f1" .
    then have pb1: "path_base f1 p = path_base f p" by (simp add: path_base_def dirs_added_def)
    from dirs_added_Dir [OF da b] have b1: "nodes f1 (path_base f p) = Some Dir" .
    from clear_way_dirs_added [OF da cw] pb1
    have cw1: "clear_way (nodes f1) (path_base f1 p) (parts p)" by simp
    have "\<exists>j. walk (nodes f1) (path_base f p) qs = Inr j \<and> nodes f1 j = Some Dir"
    proof (cases "root p = [] \<and> qs = []")
      case True
      with b1 show ?thesis by simp
    next
      case False
      from d1 obtain j where "os_stat f1 (str_of_path (parent p)) = Inr (j, Dir)"
        by (auto simp: is_dir_iff)
      from os_stat_Inr [OF this] have "os_walk f1 (str_of_path (parent p)) = Inr j"
        "nodes f1 j = Some Dir" by auto
      with False pp pb1 show ?thesis
        by (auto simp: path_walk [OF wf_path_parent [OF wf]] path_base_def)
    qed
    then obtain j where j: "walk (nodes f1) (path_base f p) qs = Inr j" "nodes f1 j = Some Dir"
      by blast
    then have "walk (nodes f1) (path_base f p) (qs @ [c]) = Inr (enter j c)"
      by (simp add: walk_append)
    with ps pb1 ne have w1: "os_walk f1 (str_of_path p) = Inr (enter j c)"
      by (simp add: path_walk [OF wf])
    from mkdir_step [OF wf ne cw1 w1] obtain f' where
      "Path_mkdir_exist_ok f1 p = (Inr (), f')" by blast
    with m m1 pne show ?thesis by (simp add: Path_mkdir.simps [of f p])
  qed
qed

lemma wf_path_joinpath: "wf_path p \<Longrightarrow> wf_path (joinpath p s)"
proof (cases s)
  case Nil
  assume "wf_path p" with Nil show ?thesis by (simp add: joinpath_def)
next
  case (Cons c cs)
  assume wf: "wf_path p"
  show ?thesis
  proof (cases "c = CHR ''/''")
    case True
    with Cons show ?thesis by (simp add: joinpath_def wf_path_of_str)
  next
    case False
    have "list_all (\<lambda>x. x \<noteq> [] \<and> x \<noteq> ''.'' \<and> CHR ''/'' \<notin> set x) (split_parts s)"
      by (auto simp: split_parts_def list_all_iff dest: split_sep_no_slash)
    with wf False Cons show ?thesis by (simp add: joinpath_def wf_path_def)
  qed
qed

lemma wf_path_expanduser: "wf_path p \<Longrightarrow> expanduser h p = Inr q \<Longrightarrow> wf_path q"
proof -
  assume wf: "wf_path p" and e: "expanduser h p = Inr q"
  show ?thesis
  proof (cases "q = p")
    case True with wf show ?thesis by simp
  next
    case False
    with e obtain t ts hm where p: "parts p = t # ts"
      and q: "q = Path (root (Path_of_str hm)) (parts (Path_of_str hm) @ ts)"
      by (auto simp: expanduser_def split: list.splits if_splits option.splits)
    from wf_path_of_str [of hm] wf p show ?thesis
      by (simp add: q wf_path_def)
  qed
qed

lemma expanduser_absolute: "take 1 s = ''/'' \<Longrightarrow> expanduser h (Path_of_str s) = Inr (Path_of_str s)"
proof -
  assume "take 1 s = ''/''"
  then obtain cs where s: "s = CHR ''/'' # cs" by (cases s) auto
  obtain r rel where sr: "splitroot s = (r, rel)" by (cases "splitroot s")
  with s have "r \<noteq> []" by (auto split: list.splits if_splits)
  with sr show ?thesis by (simp add: expanduser_def Path_of_str_def split: list.splits)
qed

lemma override_branch:
  assumes "environ pr ''AJT_USER_FILES_DIR'' = Some ov" and "ov \<noteq> []"
  shows "user_files_dir_wrapped pr f =
     (case expanduser (homes pr) (Path_of_str ov) of
        Inl e \<Rightarrow> (Inl e, f)
      | Inr p \<Rightarrow>
          (case Path_mkdir f p of
             (Inl e, f') \<Rightarrow> (Inl e, f')
           | (Inr u, f') \<Rightarrow> (Inr p, f')))"
  using assms by (simp add: user_files_dir_wrapped_def truthy_iff)

lemma linux_data_home:
  assumes "take 5 (platform pr) = ''linux''"
  shows "platform_data_home pr (THIS_ADDON_MODULE pr) =
     (case first_nonempty_base pr of Inl e \<Rightarrow> Inl e | Inr b \<Rightarrow> Inr (addon_dir pr b))"
  using assms
  by (simp add: platform_data_home_def first_nonempty_base_def default_base_def py_or_def
      addon_dir_def split: option.splits list.splits sum.splits)

lemma default_branch:
  assumes "\<not> truthy (environ pr ''AJT_USER_FILES_DIR'')"
    and "environ pr ''AJT_USE_REPO_USER_FILES'' \<noteq> Some ''1''"
  shows "user_files_dir_wrapped pr f =
     (case platform_data_home pr (THIS_ADDON_MODULE pr) of
        Inl e \<Rightarrow> (Inl e, f)
      | Inr p \<Rightarrow>
          (case Path_mkdir f p of
             (Inl e, f') \<Rightarrow> (Inl e, f')
           | (Inr u, f') \<Rightarrow> (Inr p, f')))"
  using assms by (simp add: user_files_dir_wrapped_def split: sum.splits prod.splits)

lemma wf_addon_dir: "wf_path (addon_dir pr b)"
  by (simp add: addon_dir_def wf_path_joinpath wf_path_of_str)

lemma os_stat_dirs_added:
  assumes d: "dirs_added f g" and st: "os_stat f s = Inr (k, n)"
  shows "os_stat g s = Inr (k, n)"
proof -
  from os_stat_Inr [OF st] have w: "os_walk f s = Inr k" and nk: "nodes f k = Some n"
    and md: "n = Dir \<or> \<not> must_dir s" by auto
  from d have cw: "cwd g = cwd f" by (simp add: dirs_added_def)
  have "os_walk g s = Inr k" using w cw by (rule os_walk_grow) (rule dirs_added_Dir [OF d])
  moreover from dirs_added_node [OF d, of k] nk have "nodes g k = Some n" by simp
  ultimately show ?thesis using md by (cases n) (auto simp: os_stat_def)
qed

lemma find_first:
  "xs = ds @ d # ds' \<Longrightarrow> P d \<Longrightarrow> \<forall>x\<in>set ds. \<not> P x \<Longrightarrow> find P xs = Some d"
  by (induction ds arbitrary: xs) auto

lemma joinpath_user_files: "joinpath d ''user_files'' = Path (root d) (parts d @ [''user_files''])"
  by (simp add: joinpath_def split_parts_def)

lemma wf_Path_home: "Path_home h = Inr p \<Longrightarrow> wf_path p"
  unfolding Path_home_def by (rule wf_path_expanduser [OF wf_path_of_str])

lemma wf_platform_data_home: "platform_data_home pr a = Inr p \<Longrightarrow> wf_path p"
  by (auto simp: platform_data_home_def Let_def wf_path_joinpath wf_path_of_str wf_Path_home
      split: if_splits sum.splits)

lemma legacy_branch:
  assumes "\<not> truthy (environ pr ''AJT_USER_FILES_DIR'')"
    and "environ pr ''AJT_USE_REPO_USER_FILES'' = Some ''1''"
    and "platform_data_home pr (THIS_ADDON_MODULE pr) = Inr p"
    and "Path_mkdir f p = (Inr (), f1)"
    and "walk_parents f1 (dunder_file pr) = (dirs, None)"
  shows "user_files_dir_wrapped pr f =
     (case find (\<lambda>parent_dir. is_dir f1 (joinpath parent_dir ''user_files'')) dirs of
        Some parent_dir \<Rightarrow> (Inr (joinpath parent_dir ''user_files''), f1)
      | None \<Rightarrow> (Inr p, f1))"
  using assms by (simp add: user_files_dir_wrapped_def split: option.splits)








section \<open>The file opener\<close>

text \<open>
  Claim C9. \<^verbatim>\<open>open_file\<close> takes exactly one of three ways, in this order. When
  \<^verbatim>\<open>TERMINAL\<close> is set and not empty and there is a file manager (\<^verbatim>\<open>FILE\<close> when set
  and not empty, otherwise the executable found as \<^verbatim>\<open>lf\<close>), it starts the terminal
  with \<^verbatim>\<open>-e\<close>, the file manager and the path, without a shell and in a new session.
  Otherwise, when an executable \<^verbatim>\<open>xdg-open\<close> is found, it starts that with the path
  prefixed by \<^verbatim>\<open>file://\<close>, again without a shell and in a new session. Otherwise it
  opens the URL through the host inside \<^verbatim>\<open>no_bundled_libs\<close>. The function has no
  result beside this effect.
\<close>

theorem open_file_strategy:
  "(\<forall>t m. environ pr ''TERMINAL'' = Some t \<and> t \<noteq> [] \<and> file_manager pr = Some m \<longrightarrow>
      open_file pr path = Popen [t, ''-e'', m, path] False True)
   \<and> (\<not> (truthy (environ pr ''TERMINAL'') \<and> file_manager pr \<noteq> None) \<longrightarrow>
        (\<forall>x. find_executable pr ''xdg-open'' = Some x \<and> x \<noteq> [] \<longrightarrow>
           open_file pr path = Popen [x, ''file://'' @ path] False True)
        \<and> (\<not> truthy (find_executable pr ''xdg-open'') \<longrightarrow>
             open_file pr path = OpenUrl_no_bundled_libs path))"
  by (auto simp: open_file_def file_manager_def py_or_def truthy_iff Let_def
           split: option.splits list.splits)

theorem open_file_strategy_witness:
  "open_file (ex_proc\<lparr>environ := [''TERMINAL'' \<mapsto> ''st'', ''FILE'' \<mapsto> ''ranger'']\<rparr>) ''/tmp/a.txt''
     = Popen [''st'', ''-e'', ''ranger'', ''/tmp/a.txt''] False True
   \<and> open_file (ex_proc\<lparr>environ := [''TERMINAL'' \<mapsto> ''st''],
                  find_executable := (\<lambda>n. if n = ''lf'' then Some ''/usr/bin/lf'' else None)\<rparr>)
        ''/tmp/a.txt''
     = Popen [''st'', ''-e'', ''/usr/bin/lf'', ''/tmp/a.txt''] False True
   \<and> open_file (ex_proc\<lparr>environ := [''TERMINAL'' \<mapsto> ''st''],
                  find_executable := (\<lambda>n. if n = ''xdg-open'' then Some ''/usr/bin/xdg-open'' else None)\<rparr>)
        ''/tmp/a.txt''
     = Popen [''/usr/bin/xdg-open'', ''file:///tmp/a.txt''] False True
   \<and> open_file (ex_proc\<lparr>environ := [''FILE'' \<mapsto> ''ranger'']\<rparr>) ''/tmp/a.txt''
     = OpenUrl_no_bundled_libs ''/tmp/a.txt''"
proof -
  let ?p1 = "ex_proc\<lparr>environ := [''TERMINAL'' \<mapsto> ''st'', ''FILE'' \<mapsto> ''ranger'']\<rparr>"
  let ?p2 = "ex_proc\<lparr>environ := [''TERMINAL'' \<mapsto> ''st''],
               find_executable := (\<lambda>n. if n = ''lf'' then Some ''/usr/bin/lf'' else None)\<rparr>"
  let ?p3 = "ex_proc\<lparr>environ := [''TERMINAL'' \<mapsto> ''st''],
               find_executable := (\<lambda>n. if n = ''xdg-open'' then Some ''/usr/bin/xdg-open'' else None)\<rparr>"
  let ?p4 = "ex_proc\<lparr>environ := [''FILE'' \<mapsto> ''ranger'']\<rparr>"
  have 1: "open_file ?p1 ''/tmp/a.txt'' = Popen [''st'', ''-e'', ''ranger'', ''/tmp/a.txt''] False True"
    using open_file_strategy [of ?p1 "''/tmp/a.txt''"] by (simp add: file_manager_def ex_proc_def)
  have 2: "open_file ?p2 ''/tmp/a.txt'' = Popen [''st'', ''-e'', ''/usr/bin/lf'', ''/tmp/a.txt''] False True"
    using open_file_strategy [of ?p2 "''/tmp/a.txt''"] by (simp add: file_manager_def ex_proc_def)
  have 3: "open_file ?p3 ''/tmp/a.txt'' = Popen [''/usr/bin/xdg-open'', ''file:///tmp/a.txt''] False True"
    using open_file_strategy [of ?p3 "''/tmp/a.txt''"] by (simp add: file_manager_def ex_proc_def)
  have 4: "open_file ?p4 ''/tmp/a.txt'' = OpenUrl_no_bundled_libs ''/tmp/a.txt''"
    using open_file_strategy [of ?p4 "''/tmp/a.txt''"] by (simp add: file_manager_def ex_proc_def)
  from 1 2 3 4 show ?thesis by blast
qed

section \<open>Memoization of the user data directory\<close>

text \<open>
  Claim C2. \<^verbatim>\<open>user_files_dir\<close> is memoized: once a call has returned a path, every
  later call returns that same path and runs nothing, so the file system stays as it
  is, whatever the environment, the platform or the file system have become in the
  meantime. Here \<open>w'\<close> is the world the first call leaves, \<open>w''\<close> any later world that
  still has its cache, and \<open>pr'\<close> any later process environment.
\<close>

theorem user_files_dir_memoized:
  "user_files_dir pr w = (Inr p, w') \<Longrightarrow> cache w'' = cache w' \<Longrightarrow>
     user_files_dir pr' w'' = (Inr p, w'')"
  by (auto simp: user_files_dir_def split: option.splits prod.splits sum.splits)

theorem user_files_dir_memoized_witness:
  "fst (user_files_dir (ex_proc\<lparr>environ := [''AJT_USER_FILES_DIR'' \<mapsto> ''/tmp/custom'']\<rparr>) ex_world)
     = Inr (Path ''/'' [''tmp'', ''custom''])
   \<and> user_files_dir (ex_proc\<lparr>platform := ''darwin'', environ := [''AJT_USER_FILES_DIR'' \<mapsto> ''/srv/other'']\<rparr>)
        (snd (user_files_dir (ex_proc\<lparr>environ := [''AJT_USER_FILES_DIR'' \<mapsto> ''/tmp/custom'']\<rparr>) ex_world)
           \<lparr>files := ex_fs\<rparr>)
     = (Inr (Path ''/'' [''tmp'', ''custom'']),
        snd (user_files_dir (ex_proc\<lparr>environ := [''AJT_USER_FILES_DIR'' \<mapsto> ''/tmp/custom'']\<rparr>) ex_world)
           \<lparr>files := ex_fs\<rparr>)"
proof -
  let ?pr = "ex_proc\<lparr>environ := [''AJT_USER_FILES_DIR'' \<mapsto> ''/tmp/custom'']\<rparr>"
  let ?w' = "snd (user_files_dir ?pr ex_world)"
  have a: "fst (user_files_dir ?pr ex_world) = Inr (Path ''/'' [''tmp'', ''custom''])"
    by code_simp
  then have b: "user_files_dir ?pr ex_world = (Inr (Path ''/'' [''tmp'', ''custom'']), ?w')"
    by (simp add: prod_eq_iff)
  have c: "cache (?w'\<lparr>files := ex_fs\<rparr>) = cache ?w'" by simp
  from a user_files_dir_memoized [OF b c] show ?thesis by simp
qed

section \<open>Existence of a file with content\<close>

text \<open>
  Claim C8. \<^verbatim>\<open>file_exists\<close> never raises. It answers \<open>False\<close> for the empty string,
  for a path at which \<^verbatim>\<open>stat\<close> finds nothing, for an existing file of zero bytes, and
  so for a file that \<^verbatim>\<open>touch\<close> has just created. It answers \<open>True\<close> exactly when the
  argument is a non-empty string that names an existing regular file of more than zero
  bytes.
\<close>

theorem file_exists_spec:
  "file_exists f [] = Inr False
   \<and> (\<forall>e. os_stat f s = Inl e \<longrightarrow> file_exists f s = Inr False)
   \<and> (\<forall>k a m. os_stat f s = Inr (k, File [] a m) \<longrightarrow> file_exists f s = Inr False)
   \<and> (\<forall>e f'. os_stat f s = Inl e \<and> touch f s = (Inr (), f') \<longrightarrow> file_exists f' s = Inr False)
   \<and> file_exists f s =
       Inr (s \<noteq> [] \<and> (\<exists>k c a m. os_stat f s = Inr (k, File c a m) \<and> 0 < length c))"
proof -
  have main: "file_exists f s =
       Inr (s \<noteq> [] \<and> (\<exists>k c a m. os_stat f s = Inr (k, File c a m) \<and> 0 < length c))" for f
    by (auto simp: file_exists_def os_path_isfile_def split: sum.splits node.splits prod.splits)
  have fresh: "file_exists f' s = Inr False"
    if st: "os_stat f s = Inl e" and to: "touch f s = (Inr (), f')" for e f'
  proof -
    from to obtain f1 where o: "os_open_append f s = Inr f1" and u: "os_utime f1 s = Inr f'"
      by (auto simp: touch_def split: sum.splits)
    from o obtain k where w: "os_walk f s = Inr k"
      by (auto simp: os_open_append_def split: sum.splits)
    from o w st have n: "nodes f k = None" and nd: "\<not> must_dir s"
      and f1: "f1 = f\<lparr>nodes := (nodes f)(k \<mapsto> File [] (clock f) (clock f))\<rparr>"
      by (auto simp: os_open_append_def os_stat_def split: option.splits node.splits if_splits)
    have w1: "os_walk f1 s = Inr k"
      using w by (rule os_walk_grow) (auto simp: f1 n)
    with nd have s1: "os_stat f1 s = Inr (k, File [] (clock f) (clock f))"
      by (simp add: os_stat_def f1)
    with u have f': "f' = f1\<lparr>nodes := (nodes f1)(k \<mapsto> File [] (clock f1) (clock f1))\<rparr>"
      by (simp add: os_utime_def)
    have "os_walk f' s = Inr k"
      using w1 by (rule os_walk_grow) (auto simp: f' f1)
    with nd have "os_stat f' s = Inr (k, File [] (clock f1) (clock f1))"
      by (simp add: os_stat_def f')
    then show ?thesis by (simp add: main)
  qed
  show ?thesis
    using main [of f] fresh by (auto simp: file_exists_def)
qed

theorem file_exists_spec_witness:
  "file_exists ex_fs [] = Inr False
   \<and> file_exists ex_fs ''/nonexistent/path'' = Inr False
   \<and> file_exists ex_fs ''/home/u/empty.txt'' = Inr False
   \<and> file_exists (snd (touch ex_fs ''/home/u/new.txt'')) ''/home/u/new.txt'' = Inr False
   \<and> file_exists ex_fs ''/home/u/notes.txt'' = Inr True"
proof -
  have a: "os_stat ex_fs ''/nonexistent/path'' = Inl FileNotFoundError" by code_simp
  have b: "os_stat ex_fs ''/home/u/empty.txt'' = Inr ([''home'', ''u'', ''empty.txt''], File [] 3 4)"
    by code_simp
  have c: "os_stat ex_fs ''/home/u/new.txt'' = Inl FileNotFoundError" by code_simp
  have d: "fst (touch ex_fs ''/home/u/new.txt'') = Inr ()" by code_simp
  then have d': "touch ex_fs ''/home/u/new.txt'' = (Inr (), snd (touch ex_fs ''/home/u/new.txt''))"
    by (simp add: prod_eq_iff)
  have e: "os_stat ex_fs ''/home/u/notes.txt'' = Inr ([''home'', ''u'', ''notes.txt''], File ''abc'' 1 2)"
    by code_simp
  from file_exists_spec [of ex_fs "''/nonexistent/path''"] a
  have 1: "file_exists ex_fs [] = Inr False" "file_exists ex_fs ''/nonexistent/path'' = Inr False"
    by simp_all
  from file_exists_spec [of ex_fs "''/home/u/empty.txt''"] b
  have 2: "file_exists ex_fs ''/home/u/empty.txt'' = Inr False" by simp
  from file_exists_spec [of ex_fs "''/home/u/new.txt''"] c d'
  have 3: "file_exists (snd (touch ex_fs ''/home/u/new.txt'')) ''/home/u/new.txt'' = Inr False"
    by blast
  from file_exists_spec [of ex_fs "''/home/u/notes.txt''"] e
  have 4: "file_exists ex_fs ''/home/u/notes.txt'' = Inr True" by simp
  from 1 2 3 4 show ?thesis by simp
qed

section \<open>Removing a file\<close>

text \<open>
  Claim C7 as stated fails: a path can name nothing and \<^verbatim>\<open>rm_file\<close> still raises.
  In the reference file system \<^verbatim>\<open>/home/u/notes.txt\<close> is a regular file, so
  \<^verbatim>\<open>/home/u/notes.txt/x\<close> does not exist; \<^verbatim>\<open>os.unlink\<close> reports
  \<^verbatim>\<open>NotADirectoryError\<close>, which \<^verbatim>\<open>except FileNotFoundError\<close> does not catch.
\<close>

theorem rm_file_absent_counterexample:
  "os_stat ex_fs ''/home/u/notes.txt/x'' = Inl NotADirectoryError
   \<and> rm_file ex_fs ''/home/u/notes.txt/x'' = (Inl NotADirectoryError, ex_fs)"
proof -
  have "os_stat ex_fs ''/home/u/notes.txt/x'' = Inl NotADirectoryError" by code_simp
  moreover have "os_unlink ex_fs ''/home/u/notes.txt/x'' = Inl NotADirectoryError"
    by (simp add: os_eval ex_fs_def)
  ultimately show ?thesis by (simp add: rm_file_def)
qed

text \<open>
  Claim C7, amended. In a file system that is a tree: when \<^verbatim>\<open>stat\<close> reports the path
  as not found (its last name or a directory on the way is missing), \<^verbatim>\<open>rm_file\<close>
  raises nothing and leaves the file system as it is; when the path is an existing
  regular file, \<^verbatim>\<open>rm_file\<close> raises nothing and afterwards the path is not found;
  every failure of \<^verbatim>\<open>os.unlink\<close> other than \<^verbatim>\<open>FileNotFoundError\<close> reaches the
  caller with the file system unchanged, among them \<^verbatim>\<open>IsADirectoryError\<close> for a
  directory and \<^verbatim>\<open>NotADirectoryError\<close> for a path that runs through a regular file.
\<close>

theorem rm_file_spec:
  assumes t: "tree f"
  shows "(os_stat f s = Inl FileNotFoundError \<longrightarrow> rm_file f s = (Inr (), f))
   \<and> (\<forall>k c a m. os_stat f s = Inr (k, File c a m) \<longrightarrow>
         rm_file f s = (Inr (), f\<lparr>nodes := (nodes f)(k := None)\<rparr>)
         \<and> os_stat (f\<lparr>nodes := (nodes f)(k := None)\<rparr>) s = Inl FileNotFoundError)
   \<and> (\<forall>e. os_unlink f s = Inl e \<and> e \<noteq> FileNotFoundError \<longrightarrow> rm_file f s = (Inl e, f))
   \<and> (\<forall>k. os_stat f s = Inr (k, Dir) \<longrightarrow> rm_file f s = (Inl IsADirectoryError, f))
   \<and> (os_stat f s = Inl NotADirectoryError \<longrightarrow> rm_file f s = (Inl NotADirectoryError, f))"
proof (intro conjI allI impI)
  assume st: "os_stat f s = Inl FileNotFoundError"
  from os_stat_cases [OF st] show "rm_file f s = (Inr (), f)"
  proof
    assume "os_walk f s = Inl FileNotFoundError"
    then show ?thesis by (simp add: rm_file_def os_unlink_def)
  next
    assume "\<exists>k. os_walk f s = Inr k \<and>
        (nodes f k = None \<and> FileNotFoundError = FileNotFoundError \<or>
         (\<exists>c a m. nodes f k = Some (File c a m)) \<and> must_dir s \<and> FileNotFoundError = NotADirectoryError)"
    then obtain k where w: "os_walk f s = Inr k" and n: "nodes f k = None" by auto
    from special_target [OF t w] n have "\<not> last_special s" by auto
    with w n show ?thesis by (simp add: rm_file_def os_unlink_def)
  qed
next
  fix k c a m
  assume st: "os_stat f s = Inr (k, File c a m)"
  from os_stat_Inr [OF st] have w: "os_walk f s = Inr k" and n: "nodes f k = Some (File c a m)"
    and nd: "\<not> must_dir s" by auto
  from special_target [OF t w] n have ns: "\<not> last_special s" by auto
  let ?f' = "f\<lparr>nodes := (nodes f)(k := None)\<rparr>"
  from w n nd ns show "rm_file f s = (Inr (), ?f')"
    by (simp add: rm_file_def os_unlink_def)
  have "os_walk ?f' s = Inr k"
    using w by (rule os_walk_grow) (auto simp: n)
  then show "os_stat ?f' s = Inl FileNotFoundError"
    by (simp add: os_stat_def)
next
  fix e
  assume "os_unlink f s = Inl e \<and> e \<noteq> FileNotFoundError"
  then show "rm_file f s = (Inl e, f)" by (simp add: rm_file_def)
next
  fix k
  assume st: "os_stat f s = Inr (k, Dir)"
  from os_stat_Inr [OF st] have "os_walk f s = Inr k" "nodes f k = Some Dir" by auto
  then show "rm_file f s = (Inl IsADirectoryError, f)"
    by (simp add: rm_file_def os_unlink_def)
next
  assume st: "os_stat f s = Inl NotADirectoryError"
  from os_stat_cases [OF st] show "rm_file f s = (Inl NotADirectoryError, f)"
  proof
    assume "os_walk f s = Inl NotADirectoryError"
    then show ?thesis by (simp add: rm_file_def os_unlink_def)
  next
    assume "\<exists>k. os_walk f s = Inr k \<and>
        (nodes f k = None \<and> NotADirectoryError = FileNotFoundError \<or>
         (\<exists>c a m. nodes f k = Some (File c a m)) \<and> must_dir s \<and> NotADirectoryError = NotADirectoryError)"
    then obtain k c a m where w: "os_walk f s = Inr k" and n: "nodes f k = Some (File c a m)"
      and md: "must_dir s" by auto
    from special_target [OF t w] n have "\<not> last_special s" by auto
    with w n md show ?thesis by (simp add: rm_file_def os_unlink_def)
  qed
qed

theorem rm_file_spec_witness:
  "tree ex_fs
   \<and> rm_file ex_fs ''/home/u/absent.txt'' = (Inr (), ex_fs)
   \<and> rm_file ex_fs ''/home/u/notes.txt''
       = (Inr (), ex_fs\<lparr>nodes := (nodes ex_fs)([''home'', ''u'', ''notes.txt''] := None)\<rparr>)
   \<and> os_stat (ex_fs\<lparr>nodes := (nodes ex_fs)([''home'', ''u'', ''notes.txt''] := None)\<rparr>)
        ''/home/u/notes.txt'' = Inl FileNotFoundError
   \<and> rm_file ex_fs ''/home/u'' = (Inl IsADirectoryError, ex_fs)
   \<and> rm_file ex_fs ''/home/u/notes.txt/x'' = (Inl NotADirectoryError, ex_fs)"
proof -
  have a: "os_stat ex_fs ''/home/u/absent.txt'' = Inl FileNotFoundError" by code_simp
  have b: "os_stat ex_fs ''/home/u/notes.txt'' = Inr ([''home'', ''u'', ''notes.txt''], File ''abc'' 1 2)"
    by code_simp
  have c: "os_stat ex_fs ''/home/u'' = Inr ([''home'', ''u''], Dir)" by code_simp
  have d: "os_stat ex_fs ''/home/u/notes.txt/x'' = Inl NotADirectoryError" by code_simp
  from rm_file_spec [OF tree_ex_fs, of "''/home/u/absent.txt''"] a
  have 1: "rm_file ex_fs ''/home/u/absent.txt'' = (Inr (), ex_fs)" by simp
  from rm_file_spec [OF tree_ex_fs, of "''/home/u/notes.txt''"] b
  have 2: "rm_file ex_fs ''/home/u/notes.txt''
       = (Inr (), ex_fs\<lparr>nodes := (nodes ex_fs)([''home'', ''u'', ''notes.txt''] := None)\<rparr>)"
    "os_stat (ex_fs\<lparr>nodes := (nodes ex_fs)([''home'', ''u'', ''notes.txt''] := None)\<rparr>)
        ''/home/u/notes.txt'' = Inl FileNotFoundError" by simp_all
  from rm_file_spec [OF tree_ex_fs, of "''/home/u''"] c
  have 3: "rm_file ex_fs ''/home/u'' = (Inl IsADirectoryError, ex_fs)" by simp
  from rm_file_spec [OF tree_ex_fs, of "''/home/u/notes.txt/x''"] d
  have 4: "rm_file ex_fs ''/home/u/notes.txt/x'' = (Inl NotADirectoryError, ex_fs)" by simp
  from tree_ex_fs 1 2 3 4 show ?thesis by simp
qed

section \<open>Touching a file\<close>

text \<open>
  Claim C6 as stated fails: the parent directory of \<^verbatim>\<open>/home/u\<close> exists, and
  \<^verbatim>\<open>touch\<close> raises \<^verbatim>\<open>IsADirectoryError\<close>, since \<^verbatim>\<open>open(path, "a")\<close> refuses a
  directory.
\<close>

theorem touch_directory_counterexample:
  "is_dir ex_fs (parent (Path_of_str ''/home/u''))
   \<and> touch ex_fs ''/home/u'' = (Inl IsADirectoryError, ex_fs)"
proof -
  have "is_dir ex_fs (parent (Path_of_str ''/home/u''))" by code_simp
  moreover have "os_open_append ex_fs ''/home/u'' = Inl IsADirectoryError"
    by (simp add: os_eval ex_fs_def)
  ultimately show ?thesis by (simp add: touch_def)
qed

text \<open>
  Claim C6, amended. In a file system that is a tree, let the walk to the path succeed
  (every directory on the way to its last name exists), let the path not end in a slash
  and not name a directory. Then \<^verbatim>\<open>touch\<close> raises nothing; the only node it changes
  is the one of the path, which becomes a regular file with the content it had, or
  empty if there was none, and with both times set to the clock; and a second
  \<^verbatim>\<open>touch\<close>, at any later clock, raises nothing either and again changes only the
  two times, so that the size stays what it was.
\<close>

theorem touch_spec:
  assumes t: "tree f" and w: "os_walk f s = Inr k" and nd: "\<not> must_dir s"
    and n: "nodes f k \<noteq> Some Dir"
  shows "\<exists>f1 c.
     touch f s = (Inr (), f1)
     \<and> c = (case nodes f k of None \<Rightarrow> [] | Some x \<Rightarrow> content x)
     \<and> f1 = f\<lparr>nodes := (nodes f)(k \<mapsto> File c (clock f) (clock f))\<rparr>
     \<and> os_stat f1 s = Inr (k, File c (clock f) (clock f))
     \<and> (\<forall>now. touch (f1\<lparr>clock := now\<rparr>) s
                 = (Inr (), f1\<lparr>clock := now, nodes := (nodes f1)(k \<mapsto> File c now now)\<rparr>))"
proof -
  from special_target [OF t w] n have ns: "\<not> last_special s" by auto
  define c where "c = (case nodes f k of None \<Rightarrow> [] | Some x \<Rightarrow> content x)"
  define f1 where "f1 = f\<lparr>nodes := (nodes f)(k \<mapsto> File c (clock f) (clock f))\<rparr>"
  have 1: "touch f s = (Inr (), f1)"
    using touch_result [OF w nd ns n] by (simp add: f1_def c_def)
  have w1: "os_walk (f1\<lparr>clock := now\<rparr>) s = Inr k" for now
    using w by (rule os_walk_grow) (use n in \<open>auto simp: f1_def\<close>)
  have "os_walk f1 s = Inr k"
    using w by (rule os_walk_grow) (use n in \<open>auto simp: f1_def\<close>)
  with nd have 2: "os_stat f1 s = Inr (k, File c (clock f) (clock f))"
    by (simp add: os_stat_def f1_def)
  have 3: "touch (f1\<lparr>clock := now\<rparr>) s
             = (Inr (), f1\<lparr>clock := now, nodes := (nodes f1)(k \<mapsto> File c now now)\<rparr>)" for now
    using touch_result [OF w1 [of now] nd ns] by (simp add: f1_def)
  from 1 2 3 show ?thesis by (simp add: c_def f1_def)
qed

theorem touch_spec_witness:
  "tree ex_fs
   \<and> os_walk ex_fs ''/home/u/notes.txt'' = Inr [''home'', ''u'', ''notes.txt'']
   \<and> touch ex_fs ''/home/u/notes.txt''
       = (Inr (), ex_fs\<lparr>nodes := (nodes ex_fs)([''home'', ''u'', ''notes.txt''] \<mapsto> File ''abc'' 7 7)\<rparr>)
   \<and> touch (ex_fs\<lparr>nodes := (nodes ex_fs)([''home'', ''u'', ''notes.txt''] \<mapsto> File ''abc'' 7 7),
                  clock := 9\<rparr>) ''/home/u/notes.txt''
       = (Inr (), ex_fs\<lparr>nodes := (nodes ex_fs)([''home'', ''u'', ''notes.txt''] \<mapsto> File ''abc'' 9 9),
                        clock := 9\<rparr>)
   \<and> os_walk ex_fs ''new.txt'' = Inr [''home'', ''u'', ''new.txt'']
   \<and> touch ex_fs ''new.txt''
       = (Inr (), ex_fs\<lparr>nodes := (nodes ex_fs)([''home'', ''u'', ''new.txt''] \<mapsto> File [] 7 7)\<rparr>)"
proof -
  have w1: "os_walk ex_fs ''/home/u/notes.txt'' = Inr [''home'', ''u'', ''notes.txt'']" by code_simp
  have w2: "os_walk ex_fs ''new.txt'' = Inr [''home'', ''u'', ''new.txt'']" by code_simp
  have m1: "\<not> must_dir ''/home/u/notes.txt''" by code_simp
  have m2: "\<not> must_dir ''new.txt''" by code_simp
  have n1: "nodes ex_fs [''home'', ''u'', ''notes.txt''] \<noteq> Some Dir" by (simp add: ex_fs_def)
  have n2: "nodes ex_fs [''home'', ''u'', ''new.txt''] \<noteq> Some Dir" by (simp add: ex_fs_def)
  from touch_spec [OF tree_ex_fs w1 m1 n1]
  have a: "touch ex_fs ''/home/u/notes.txt''
       = (Inr (), ex_fs\<lparr>nodes := (nodes ex_fs)([''home'', ''u'', ''notes.txt''] \<mapsto> File ''abc'' 7 7)\<rparr>)"
    and b: "touch (ex_fs\<lparr>nodes := (nodes ex_fs)([''home'', ''u'', ''notes.txt''] \<mapsto> File ''abc'' 7 7),
                  clock := 9\<rparr>) ''/home/u/notes.txt''
       = (Inr (), ex_fs\<lparr>nodes := (nodes ex_fs)([''home'', ''u'', ''notes.txt''] \<mapsto> File ''abc'' 9 9),
                        clock := 9\<rparr>)"
    by (simp_all add: ex_fs_def)
  from touch_spec [OF tree_ex_fs w2 m2 n2]
  have c: "touch ex_fs ''new.txt''
       = (Inr (), ex_fs\<lparr>nodes := (nodes ex_fs)([''home'', ''u'', ''new.txt''] \<mapsto> File [] 7 7)\<rparr>)"
    by (simp add: ex_fs_def)
  from tree_ex_fs w1 w2 a b c show ?thesis by simp
qed

section \<open>The parent-path walker\<close>




section \<open>Finding a file above the module\<close>

text \<open>
  Claim C10. Let the module's own file exist. Then \<^verbatim>\<open>find_file_in_parents\<close> goes
  through the directories above the module's file, nearest first (the sequence of
  \<^verbatim>\<open>walk_parents\<close>, a chain of parents), and returns the join of the first of them
  with the file name for which the joined path is an existing regular file: a path it
  returns is a regular file, and no nearer directory has one under that name. It
  returns whenever some directory of the sequence has such a file, and when none has
  it raises \<^verbatim>\<open>RuntimeError\<close> with its message; it never returns a placeholder.
\<close>

theorem find_file_in_parents_spec:
  assumes st: "os_stat f (str_of_path (Path_of_str (dunder_file pr))) = Inr (k, n)"
  shows "(\<exists>ys. fst (walk_parents f (dunder_file pr))
             = (if is_dir f (Path_of_str (dunder_file pr)) then [Path_of_str (dunder_file pr)] else []) @ ys
           \<and> parent_chain (Path_of_str (dunder_file pr)) ys)
   \<and> (\<forall>q. find_file_in_parents pr f file_name = Inr q \<longrightarrow>
         is_file f q
         \<and> (\<exists>ds d ds'. fst (walk_parents f (dunder_file pr)) = ds @ d # ds'
               \<and> q = joinpath d file_name
               \<and> (\<forall>x\<in>set ds. \<not> is_file f (joinpath x file_name))))
   \<and> ((\<exists>d\<in>set (fst (walk_parents f (dunder_file pr))). is_file f (joinpath d file_name)) \<longrightarrow>
         (\<exists>q. find_file_in_parents pr f file_name = Inr q))
   \<and> ((\<forall>d\<in>set (fst (walk_parents f (dunder_file pr))). \<not> is_file f (joinpath d file_name)) \<longrightarrow>
         find_file_in_parents pr f file_name = Inl (RuntimeError (not_found_message file_name)))"
proof -
  let ?P = "\<lambda>parent_dir. is_file f (joinpath parent_dir file_name)"
  from walk_parents_existing [OF st] obtain ys where
    w: "walk_parents f (dunder_file pr)
          = ((if is_dir f (Path_of_str (dunder_file pr)) then [Path_of_str (dunder_file pr)] else []) @ ys, None)"
    and c: "parent_chain (Path_of_str (dunder_file pr)) ys" by blast
  let ?xs = "fst (walk_parents f (dunder_file pr))"
  have wx: "walk_parents f (dunder_file pr) = (?xs, None)" using w by simp
  have r: "find_file_in_parents pr f file_name =
     (case find ?P ?xs of
        Some d \<Rightarrow> Inr (joinpath d file_name)
      | None \<Rightarrow> Inl (RuntimeError (not_found_message file_name)))"
    by (subst find_file_in_parents_def, subst wx) (simp split: option.splits)
  have 1: "\<exists>ys. ?xs = (if is_dir f (Path_of_str (dunder_file pr)) then [Path_of_str (dunder_file pr)] else []) @ ys
           \<and> parent_chain (Path_of_str (dunder_file pr)) ys"
    using w c by auto
  have 2: "is_file f q \<and> (\<exists>ds d ds'. ?xs = ds @ d # ds' \<and> q = joinpath d file_name
               \<and> (\<forall>x\<in>set ds. \<not> is_file f (joinpath x file_name)))"
    if "find_file_in_parents pr f file_name = Inr q" for q
  proof -
    from that r obtain d where d: "find ?P ?xs = Some d" "q = joinpath d file_name"
      by (auto split: option.splits)
    from find_split [OF d(1)] d(2) show ?thesis by blast
  qed
  have 3: "\<exists>q. find_file_in_parents pr f file_name = Inr q"
    if "\<exists>d\<in>set ?xs. is_file f (joinpath d file_name)"
  proof -
    from that have "find ?P ?xs \<noteq> None" by (auto simp: find_None_iff)
    with r show ?thesis by (auto split: option.splits)
  qed
  have 4: "find_file_in_parents pr f file_name = Inl (RuntimeError (not_found_message file_name))"
    if "\<forall>d\<in>set ?xs. \<not> is_file f (joinpath d file_name)"
  proof -
    from that have "find ?P ?xs = None" by (simp add: find_None_iff)
    with r show ?thesis by simp
  qed
  from 1 2 3 4 show ?thesis by blast
qed

theorem find_file_in_parents_spec_witness:
  "os_stat ex_fs (str_of_path (Path_of_str (dunder_file ex_proc)))
     = Inr ([''home'', ''u'', ''japanese'', ''helpers'', ''file_ops.py''], File ''#'' 5 6)
   \<and> find_file_in_parents ex_proc ex_fs ''config.json''
       = Inr (Path ''/'' [''home'', ''u'', ''japanese'', ''config.json''])
   \<and> is_file ex_fs (Path ''/'' [''home'', ''u'', ''japanese'', ''config.json''])
   \<and> find_file_in_parents ex_proc ex_fs ''setup.cfg''
       = Inl (RuntimeError (not_found_message ''setup.cfg''))"
proof -
  have st: "os_stat ex_fs (str_of_path (Path_of_str (dunder_file ex_proc)))
     = Inr ([''home'', ''u'', ''japanese'', ''helpers'', ''file_ops.py''], File ''#'' 5 6)"
    by code_simp
  have a: "find_file_in_parents ex_proc ex_fs ''config.json''
       = Inr (Path ''/'' [''home'', ''u'', ''japanese'', ''config.json''])" by code_simp
  have b: "list_all (\<lambda>d. \<not> is_file ex_fs (joinpath d ''setup.cfg''))
             (fst (walk_parents ex_fs (dunder_file ex_proc)))" by code_simp
  from find_file_in_parents_spec [OF st, of "''config.json''"] a
  have 1: "is_file ex_fs (Path ''/'' [''home'', ''u'', ''japanese'', ''config.json''])" by blast
  from find_file_in_parents_spec [OF st, of "''setup.cfg''"] b
  have 2: "find_file_in_parents ex_proc ex_fs ''setup.cfg''
       = Inl (RuntimeError (not_found_message ''setup.cfg''))"
    by (simp add: list_all_iff)
  from st a 1 2 show ?thesis by blast
qed

section \<open>The user data directory: the explicit override\<close>

text \<open>
  Claim C1. Let \<^verbatim>\<open>AJT_USER_FILES_DIR\<close> be set to a non-empty string, in a process
  that has not yet cached a result. Then the result of \<^verbatim>\<open>user_files_dir\<close> depends on
  that value and the home directories alone: any other process environment with the
  same two, whatever its platform and its other variables (among them
  \<^verbatim>\<open>AJT_USE_REPO_USER_FILES\<close>), gives the same result. The path it returns is the
  value with a leading home shorthand expanded; an absolute value is taken as it is.
  When the home directory cannot be found, the \<^verbatim>\<open>RuntimeError\<close> of the expansion
  is the result. When the function returns, the path is a directory in the file system
  it leaves, which differs from the one before only by added directories (the path and
  its missing parents), and the path is cached. It does return when nothing stands in
  the way of the directories (\<open>can_mkdir\<close>).
\<close>

theorem user_files_dir_override:
  assumes ov: "environ pr ''AJT_USER_FILES_DIR'' = Some ov" and ne: "ov \<noteq> []"
    and c: "cache w = None"
  shows
   "(\<forall>pr'. environ pr' ''AJT_USER_FILES_DIR'' = Some ov \<and> homes pr' = homes pr \<longrightarrow>
        user_files_dir pr' w = user_files_dir pr w)
    \<and> (take 1 ov = ''/'' \<longrightarrow> expanduser (homes pr) (Path_of_str ov) = Inr (Path_of_str ov))
    \<and> (\<forall>e. expanduser (homes pr) (Path_of_str ov) = Inl e \<longrightarrow> fst (user_files_dir pr w) = Inl e)
    \<and> (\<forall>p. expanduser (homes pr) (Path_of_str ov) = Inr p \<longrightarrow>
         (\<forall>r w'. user_files_dir pr w = (Inr r, w') \<longrightarrow>
            r = p \<and> is_dir (files w') p \<and> dirs_added (files w) (files w') \<and> cache w' = Some p)
         \<and> (can_mkdir (files w) p \<longrightarrow> (\<exists>w'. user_files_dir pr w = (Inr p, w'))))"
proof (intro conjI allI impI)
  fix pr' :: proc
  assume a: "environ pr' ''AJT_USER_FILES_DIR'' = Some ov \<and> homes pr' = homes pr"
  then have "user_files_dir_wrapped pr' (files w) = user_files_dir_wrapped pr (files w)"
    by (simp add: override_branch [OF ov ne] override_branch [OF conjunct1 [OF a] ne])
  then show "user_files_dir pr' w = user_files_dir pr w"
    by (simp add: user_files_dir_def c)
next
  assume "take 1 ov = ''/''"
  then show "expanduser (homes pr) (Path_of_str ov) = Inr (Path_of_str ov)"
    by (rule expanduser_absolute)
next
  fix e assume "expanduser (homes pr) (Path_of_str ov) = Inl e"
  then show "fst (user_files_dir pr w) = Inl e"
    by (simp add: user_files_dir_def c override_branch [OF ov ne])
next
  fix p r w'
  assume e: "expanduser (homes pr) (Path_of_str ov) = Inr p"
    and u: "user_files_dir pr w = (Inr r, w')"
  obtain x f' where m: "Path_mkdir (files w) p = (x, f')" by (cases "Path_mkdir (files w) p")
  with u e have r: "r = p" and x: "x = Inr ()" and w': "w' = w\<lparr>files := f', cache := Some p\<rparr>"
    by (auto simp: user_files_dir_def c override_branch [OF ov ne] split: sum.splits)
  from m x have "is_dir f' p" by (simp add: Path_mkdir_is_dir)
  moreover from m have "dirs_added (files w) f'" by (rule Path_mkdir_dirs_added)
  ultimately show "r = p" "is_dir (files w') p" "dirs_added (files w) (files w')" "cache w' = Some p"
    using r w' by simp_all
next
  fix p
  assume e: "expanduser (homes pr) (Path_of_str ov) = Inr p" and cm: "can_mkdir (files w) p"
  from wf_path_expanduser [OF wf_path_of_str e] have "wf_path p" .
  from Path_mkdir_succeeds [OF this cm] obtain f' where "Path_mkdir (files w) p = (Inr (), f')" ..
  with e show "\<exists>w'. user_files_dir pr w = (Inr p, w')"
    by (simp add: user_files_dir_def c override_branch [OF ov ne])
qed

theorem user_files_dir_override_witness:
  "expanduser (homes ex_proc) (Path_of_str ''~/data/ajt'') = Inr (Path ''/'' [''home'', ''u'', ''data'', ''ajt''])
   \<and> can_mkdir ex_fs (Path ''/'' [''home'', ''u'', ''data'', ''ajt''])
   \<and> fst (user_files_dir (ex_proc\<lparr>environ := [''AJT_USER_FILES_DIR'' \<mapsto> ''~/data/ajt'']\<rparr>) ex_world)
       = Inr (Path ''/'' [''home'', ''u'', ''data'', ''ajt''])
   \<and> is_dir (files (snd (user_files_dir
          (ex_proc\<lparr>environ := [''AJT_USER_FILES_DIR'' \<mapsto> ''~/data/ajt'']\<rparr>) ex_world)))
        (Path ''/'' [''home'', ''u'', ''data'', ''ajt''])
   \<and> user_files_dir
        (ex_proc\<lparr>platform := ''darwin'',
                  environ := [''AJT_USER_FILES_DIR'' \<mapsto> ''~/data/ajt'',
                              ''AJT_USE_REPO_USER_FILES'' \<mapsto> ''1'']\<rparr>) ex_world
       = user_files_dir (ex_proc\<lparr>environ := [''AJT_USER_FILES_DIR'' \<mapsto> ''~/data/ajt'']\<rparr>) ex_world"
proof -
  let ?pr = "ex_proc\<lparr>environ := [''AJT_USER_FILES_DIR'' \<mapsto> ''~/data/ajt'']\<rparr>"
  let ?pr' = "ex_proc\<lparr>platform := ''darwin'',
                  environ := [''AJT_USER_FILES_DIR'' \<mapsto> ''~/data/ajt'',
                              ''AJT_USE_REPO_USER_FILES'' \<mapsto> ''1'']\<rparr>"
  let ?p = "Path ''/'' [''home'', ''u'', ''data'', ''ajt'']"
  have ov: "environ ?pr ''AJT_USER_FILES_DIR'' = Some ''~/data/ajt''" by simp
  have ne: "''~/data/ajt'' \<noteq> []" by simp
  have c: "cache ex_world = None" by (simp add: ex_world_def)
  have e: "expanduser (homes ex_proc) (Path_of_str ''~/data/ajt'') = Inr ?p" by code_simp
  then have e': "expanduser (homes ?pr) (Path_of_str ''~/data/ajt'') = Inr ?p" by simp
  have cm: "can_mkdir ex_fs ?p" by code_simp
  then have cm': "can_mkdir (files ex_world) ?p" by (simp add: ex_world_def)
  note T = user_files_dir_override [OF ov ne c]
  note T1 = T [THEN conjunct1, rule_format]
  note T4 = T [THEN conjunct2, THEN conjunct2, THEN conjunct2, rule_format, OF e']
  from T4 [THEN conjunct2, rule_format, OF cm']
  obtain w' where u: "user_files_dir ?pr ex_world = (Inr ?p, w')" ..
  from T4 [THEN conjunct1, rule_format, OF u] have d: "is_dir (files w') ?p" by (elim conjE)
  have "environ ?pr' ''AJT_USER_FILES_DIR'' = Some ''~/data/ajt'' \<and> homes ?pr' = homes ?pr"
    by simp
  from T1 [OF this] have i: "user_files_dir ?pr' ex_world = user_files_dir ?pr ex_world" .
  from u have "fst (user_files_dir ?pr ex_world) = Inr ?p" "snd (user_files_dir ?pr ex_world) = w'"
    by simp_all
  with e cm d i show ?thesis by (intro conjI) simp_all
qed

section \<open>The user data directory: the Linux default\<close>

text \<open>
  Claim C4 as stated fails where a variable is set to the empty string. With
  \<^verbatim>\<open>XDG_STATE_HOME\<close> set to \<^verbatim>\<open>""\<close> and \<^verbatim>\<open>XDG_DATA_HOME\<close> to \<^verbatim>\<open>/tmp/xdg\<close> the
  first set value is the empty string, whose join is the relative path
  \<^verbatim>\<open>anki-addons/japanese\<close>; the source's \<^verbatim>\<open>or\<close> passes over the empty string, and
  \<^verbatim>\<open>user_files_dir\<close> returns \<^verbatim>\<open>/tmp/xdg/anki-addons/japanese\<close>.
\<close>

theorem user_files_dir_linux_counterexample:
  "first_set_base (ex_proc\<lparr>environ := [''XDG_STATE_HOME'' \<mapsto> [], ''XDG_DATA_HOME'' \<mapsto> ''/tmp/xdg'']\<rparr>)
     = Inr []
   \<and> fst (user_files_dir
        (ex_proc\<lparr>environ := [''XDG_STATE_HOME'' \<mapsto> [], ''XDG_DATA_HOME'' \<mapsto> ''/tmp/xdg'']\<rparr>)
        ex_world)
       = Inr (Path ''/'' [''tmp'', ''xdg'', ''anki-addons'', ''japanese''])
   \<and> addon_dir (ex_proc\<lparr>environ := [''XDG_STATE_HOME'' \<mapsto> [], ''XDG_DATA_HOME'' \<mapsto> ''/tmp/xdg'']\<rparr>) []
       = Path [] [''anki-addons'', ''japanese'']"
  by code_simp

text \<open>
  Claim C4, amended. On a platform whose name starts with \<^verbatim>\<open>linux\<close>, with
  \<^verbatim>\<open>AJT_USER_FILES_DIR\<close> unset or empty, \<^verbatim>\<open>AJT_USE_REPO_USER_FILES\<close> not
  \<^verbatim>\<open>"1"\<close> and nothing cached: the base directory is the first value that is set and
  not empty among \<^verbatim>\<open>XDG_STATE_HOME\<close>, \<^verbatim>\<open>XDG_DATA_HOME\<close> and the default
  \<^verbatim>\<open>~/.local/share\<close>. When the default is needed and the home directory cannot be
  found, that error is the result. Otherwise, when \<^verbatim>\<open>user_files_dir\<close> returns, it
  returns the base joined with \<^verbatim>\<open>anki-addons\<close> and the add-on's name, that path is a
  directory afterwards, only directories were added, and the path is cached; and it
  does return when nothing stands in the way of the directories.
\<close>

theorem user_files_dir_linux:
  assumes lin: "take 5 (platform pr) = ''linux''"
    and no: "\<not> truthy (environ pr ''AJT_USER_FILES_DIR'')"
    and leg: "environ pr ''AJT_USE_REPO_USER_FILES'' \<noteq> Some ''1''"
    and c: "cache w = None"
  shows
   "(\<forall>e. first_nonempty_base pr = Inl e \<longrightarrow> fst (user_files_dir pr w) = Inl e)
    \<and> (\<forall>b. first_nonempty_base pr = Inr b \<longrightarrow>
         (\<forall>r w'. user_files_dir pr w = (Inr r, w') \<longrightarrow>
            r = addon_dir pr b \<and> is_dir (files w') r \<and> dirs_added (files w) (files w')
            \<and> cache w' = Some r)
         \<and> (can_mkdir (files w) (addon_dir pr b) \<longrightarrow>
              (\<exists>w'. user_files_dir pr w = (Inr (addon_dir pr b), w'))))"
proof (intro conjI allI impI)
  fix e assume "first_nonempty_base pr = Inl e"
  then show "fst (user_files_dir pr w) = Inl e"
    by (simp add: user_files_dir_def c default_branch [OF no leg] linux_data_home [OF lin])
next
  fix b r w'
  assume b: "first_nonempty_base pr = Inr b" and u: "user_files_dir pr w = (Inr r, w')"
  obtain x f' where m: "Path_mkdir (files w) (addon_dir pr b) = (x, f')"
    by (cases "Path_mkdir (files w) (addon_dir pr b)")
  with u b have r: "r = addon_dir pr b" and x: "x = Inr ()"
    and w': "w' = w\<lparr>files := f', cache := Some (addon_dir pr b)\<rparr>"
    by (auto simp: user_files_dir_def c default_branch [OF no leg] linux_data_home [OF lin]
        split: sum.splits)
  from m x have "is_dir f' (addon_dir pr b)" by (simp add: Path_mkdir_is_dir)
  moreover from m have "dirs_added (files w) f'" by (rule Path_mkdir_dirs_added)
  ultimately show "r = addon_dir pr b" "is_dir (files w') r" "dirs_added (files w) (files w')"
    "cache w' = Some r"
    using r w' by simp_all
next
  fix b
  assume b: "first_nonempty_base pr = Inr b" and cm: "can_mkdir (files w) (addon_dir pr b)"
  from Path_mkdir_succeeds [OF wf_addon_dir cm] obtain f' where
    "Path_mkdir (files w) (addon_dir pr b) = (Inr (), f')" ..
  with b show "\<exists>w'. user_files_dir pr w = (Inr (addon_dir pr b), w')"
    by (simp add: user_files_dir_def c default_branch [OF no leg] linux_data_home [OF lin])
qed

theorem user_files_dir_linux_witness:
  "first_nonempty_base (ex_proc\<lparr>environ := [''XDG_DATA_HOME'' \<mapsto> ''/tmp/xdg'']\<rparr>) = Inr ''/tmp/xdg''
   \<and> can_mkdir ex_fs (Path ''/'' [''tmp'', ''xdg'', ''anki-addons'', ''japanese''])
   \<and> fst (user_files_dir (ex_proc\<lparr>environ := [''XDG_DATA_HOME'' \<mapsto> ''/tmp/xdg'']\<rparr>) ex_world)
       = Inr (Path ''/'' [''tmp'', ''xdg'', ''anki-addons'', ''japanese''])
   \<and> is_dir (files (snd (user_files_dir (ex_proc\<lparr>environ := [''XDG_DATA_HOME'' \<mapsto> ''/tmp/xdg'']\<rparr>)
                            ex_world)))
        (Path ''/'' [''tmp'', ''xdg'', ''anki-addons'', ''japanese''])
   \<and> first_nonempty_base ex_proc = Inr ''/home/u/.local/share''
   \<and> fst (user_files_dir ex_proc ex_world)
       = Inr (Path ''/'' [''home'', ''u'', ''.local'', ''share'', ''anki-addons'', ''japanese''])
   \<and> first_nonempty_base
        (ex_proc\<lparr>environ := [''XDG_DATA_HOME'' \<mapsto> ''/tmp/xdg'', ''XDG_STATE_HOME'' \<mapsto> ''/var/state'']\<rparr>)
       = Inr ''/var/state''"
proof -
  let ?pr = "ex_proc\<lparr>environ := [''XDG_DATA_HOME'' \<mapsto> ''/tmp/xdg'']\<rparr>"
  let ?p = "Path ''/'' [''tmp'', ''xdg'', ''anki-addons'', ''japanese'']"
  let ?q = "Path ''/'' [''home'', ''u'', ''.local'', ''share'', ''anki-addons'', ''japanese'']"
  have c: "cache ex_world = None" by (simp add: ex_world_def)
  have lin: "take 5 (platform ?pr) = ''linux''" by (simp add: ex_proc_def)
  have no: "\<not> truthy (environ ?pr ''AJT_USER_FILES_DIR'')" by simp
  have leg: "environ ?pr ''AJT_USE_REPO_USER_FILES'' \<noteq> Some ''1''" by simp
  have b: "first_nonempty_base ?pr = Inr ''/tmp/xdg''" by code_simp
  have a: "addon_dir ?pr ''/tmp/xdg'' = ?p" by code_simp
  have cm: "can_mkdir ex_fs ?p" by code_simp
  then have cm': "can_mkdir (files ex_world) (addon_dir ?pr ''/tmp/xdg'')"
    by (simp add: ex_world_def a)
  note T = user_files_dir_linux [OF lin no leg c, THEN conjunct2, rule_format, OF b]
  from T [THEN conjunct2, rule_format, OF cm']
  obtain w' where u: "user_files_dir ?pr ex_world = (Inr (addon_dir ?pr ''/tmp/xdg''), w')" ..
  from T [THEN conjunct1, rule_format, OF u] have d: "is_dir (files w') (addon_dir ?pr ''/tmp/xdg'')"
    by (elim conjE)
  from u a have 1: "fst (user_files_dir ?pr ex_world) = Inr ?p" by simp
  from u d a have 2: "is_dir (files (snd (user_files_dir ?pr ex_world))) ?p" by simp
  have lin0: "take 5 (platform ex_proc) = ''linux''" by (simp add: ex_proc_def)
  have no0: "\<not> truthy (environ ex_proc ''AJT_USER_FILES_DIR'')" by (simp add: ex_proc_def)
  have leg0: "environ ex_proc ''AJT_USE_REPO_USER_FILES'' \<noteq> Some ''1''" by (simp add: ex_proc_def)
  have b0: "first_nonempty_base ex_proc = Inr ''/home/u/.local/share''" by code_simp
  have a0: "addon_dir ex_proc ''/home/u/.local/share'' = ?q" by code_simp
  have "can_mkdir ex_fs ?q" by code_simp
  then have cm0: "can_mkdir (files ex_world) (addon_dir ex_proc ''/home/u/.local/share'')"
    by (simp add: ex_world_def a0)
  from user_files_dir_linux [OF lin0 no0 leg0 c, THEN conjunct2, rule_format, OF b0,
      THEN conjunct2, rule_format, OF cm0]
  obtain w0 where "user_files_dir ex_proc ex_world = (Inr (addon_dir ex_proc ''/home/u/.local/share''), w0)" ..
  with a0 have 3: "fst (user_files_dir ex_proc ex_world) = Inr ?q" by simp
  have 4: "first_nonempty_base
        (ex_proc\<lparr>environ := [''XDG_DATA_HOME'' \<mapsto> ''/tmp/xdg'', ''XDG_STATE_HOME'' \<mapsto> ''/var/state'']\<rparr>)
       = Inr ''/var/state''" by code_simp
  from b cm 1 2 b0 3 4 show ?thesis by (intro conjI)
qed

section \<open>The user data directory: the legacy fallback\<close>

text \<open>
  Claim C3. Let \<^verbatim>\<open>AJT_USER_FILES_DIR\<close> be unset or empty,
  \<^verbatim>\<open>AJT_USE_REPO_USER_FILES\<close> be the string \<^verbatim>\<open>"1"\<close>, nothing be cached, \<open>p\<close> be
  the platform default, nothing stand in the way of creating it, and the module's own
  file exist. Then \<^verbatim>\<open>user_files_dir\<close> first creates \<open>p\<close> with its missing parents,
  which gives the file system \<open>f1\<close> that the call leaves in every case, so the
  created directory stays. It then goes through the directories above the module's
  file, nearest first, and returns the child named \<^verbatim>\<open>user_files\<close> of the first of
  them where that child is a directory, instead of \<open>p\<close>; when no directory of the
  sequence has such a child, it returns \<open>p\<close>. The result is cached.
\<close>

theorem user_files_dir_legacy:
  assumes no: "\<not> truthy (environ pr ''AJT_USER_FILES_DIR'')"
    and leg: "environ pr ''AJT_USE_REPO_USER_FILES'' = Some ''1''"
    and c: "cache w = None"
    and pd: "platform_data_home pr (THIS_ADDON_MODULE pr) = Inr p"
    and cm': "can_mkdir (files w) p"
    and st: "os_stat (files w) (str_of_path (Path_of_str (dunder_file pr))) = Inr (k, n)"
  shows "\<exists>f1 dirs ys.
     Path_mkdir (files w) p = (Inr (), f1) \<and> is_dir f1 p \<and> dirs_added (files w) f1
     \<and> walk_parents f1 (dunder_file pr) = (dirs, None)
     \<and> dirs = (if is_dir f1 (Path_of_str (dunder_file pr)) then [Path_of_str (dunder_file pr)] else []) @ ys
     \<and> parent_chain (Path_of_str (dunder_file pr)) ys
     \<and> (\<forall>ds d ds'. dirs = ds @ d # ds' \<and> is_dir f1 (Path (root d) (parts d @ [''user_files'']))
            \<and> (\<forall>x\<in>set ds. \<not> is_dir f1 (Path (root x) (parts x @ [''user_files''])))
          \<longrightarrow> user_files_dir pr w
                = (Inr (Path (root d) (parts d @ [''user_files''])),
                   w\<lparr>files := f1, cache := Some (Path (root d) (parts d @ [''user_files'']))\<rparr>))
     \<and> ((\<forall>d\<in>set dirs. \<not> is_dir f1 (Path (root d) (parts d @ [''user_files''])))
          \<longrightarrow> user_files_dir pr w = (Inr p, w\<lparr>files := f1, cache := Some p\<rparr>))"
proof -
  from wf_platform_data_home [OF pd] have wf: "wf_path p" .
  from Path_mkdir_succeeds [OF wf cm'] obtain f1 where m: "Path_mkdir (files w) p = (Inr (), f1)" ..
  from Path_mkdir_is_dir [OF m] have d: "is_dir f1 p" .
  from Path_mkdir_dirs_added [OF m] have da: "dirs_added (files w) f1" .
  from os_stat_dirs_added [OF da st]
  have st1: "os_stat f1 (str_of_path (Path_of_str (dunder_file pr))) = Inr (k, n)" .
  from walk_parents_existing [OF st1] obtain ys where
    wp: "walk_parents f1 (dunder_file pr)
          = ((if is_dir f1 (Path_of_str (dunder_file pr)) then [Path_of_str (dunder_file pr)] else []) @ ys, None)"
    and ch: "parent_chain (Path_of_str (dunder_file pr)) ys" by blast
  define dirs where
    "dirs = (if is_dir f1 (Path_of_str (dunder_file pr)) then [Path_of_str (dunder_file pr)] else []) @ ys"
  from wp have wp': "walk_parents f1 (dunder_file pr) = (dirs, None)" by (simp add: dirs_def)
  note br = legacy_branch [OF no leg pd m wp']
  have found: "user_files_dir pr w
                = (Inr (Path (root d) (parts d @ [''user_files''])),
                   w\<lparr>files := f1, cache := Some (Path (root d) (parts d @ [''user_files'']))\<rparr>)"
    if "dirs = ds @ d # ds' \<and> is_dir f1 (Path (root d) (parts d @ [''user_files'']))
            \<and> (\<forall>x\<in>set ds. \<not> is_dir f1 (Path (root x) (parts x @ [''user_files''])))"
    for ds d ds'
  proof -
    from that have "find (\<lambda>parent_dir. is_dir f1 (joinpath parent_dir ''user_files'')) dirs = Some d"
      by (intro find_first [of dirs ds d ds']) (auto simp: joinpath_user_files)
    with br show ?thesis by (simp add: user_files_dir_def c joinpath_user_files)
  qed
  have none: "user_files_dir pr w = (Inr p, w\<lparr>files := f1, cache := Some p\<rparr>)"
    if "\<forall>d\<in>set dirs. \<not> is_dir f1 (Path (root d) (parts d @ [''user_files'']))"
  proof -
    from that have "find (\<lambda>parent_dir. is_dir f1 (joinpath parent_dir ''user_files'')) dirs = None"
      by (simp add: find_None_iff joinpath_user_files)
    with br show ?thesis by (simp add: user_files_dir_def c)
  qed
  from m d da wp' dirs_def ch found none show ?thesis by blast
qed

theorem user_files_dir_legacy_witness:
  "platform_data_home (ex_proc\<lparr>environ := [''AJT_USE_REPO_USER_FILES'' \<mapsto> ''1'']\<rparr>) ''japanese''
     = Inr (Path ''/'' [''home'', ''u'', ''.local'', ''share'', ''anki-addons'', ''japanese''])
   \<and> fst (user_files_dir (ex_proc\<lparr>environ := [''AJT_USE_REPO_USER_FILES'' \<mapsto> ''1'']\<rparr>) ex_world)
       = Inr (Path ''/'' [''home'', ''u'', ''japanese'', ''user_files''])
   \<and> is_dir (files (snd (user_files_dir
          (ex_proc\<lparr>environ := [''AJT_USE_REPO_USER_FILES'' \<mapsto> ''1'']\<rparr>) ex_world)))
        (Path ''/'' [''home'', ''u'', ''.local'', ''share'', ''anki-addons'', ''japanese''])
   \<and> fst (user_files_dir (ex_proc\<lparr>environ := [''AJT_USE_REPO_USER_FILES'' \<mapsto> ''1''],
                                    dunder_file := ''/home/u/notes.txt''\<rparr>) ex_world)
       = Inr (Path ''/'' [''home'', ''u'', ''.local'', ''share'', ''anki-addons'', ''japanese''])"
proof -
  let ?pr = "ex_proc\<lparr>environ := [''AJT_USE_REPO_USER_FILES'' \<mapsto> ''1'']\<rparr>"
  let ?pr2 = "ex_proc\<lparr>environ := [''AJT_USE_REPO_USER_FILES'' \<mapsto> ''1''],
                        dunder_file := ''/home/u/notes.txt''\<rparr>"
  let ?p = "Path ''/'' [''home'', ''u'', ''.local'', ''share'', ''anki-addons'', ''japanese'']"
  let ?g = "snd (Path_mkdir ex_fs ?p)"
  let ?H = "Path ''/'' [''home'', ''u'', ''japanese'', ''helpers'']"
  let ?J = "Path ''/'' [''home'', ''u'', ''japanese'']"
  let ?R = "[Path ''/'' [''home'', ''u''], Path ''/'' [''home''], Path ''/'' []]"
  have c: "cache ex_world = None" and fw: "files ex_world = ex_fs" by (simp_all add: ex_world_def)
  have no: "\<not> truthy (environ ?pr ''AJT_USER_FILES_DIR'')" by simp
  have leg: "environ ?pr ''AJT_USE_REPO_USER_FILES'' = Some ''1''" by simp
  have pd0: "platform_data_home ?pr ''japanese'' = Inr ?p" by code_simp
  have nm: "THIS_ADDON_MODULE ?pr = ''japanese''" by code_simp
  from pd0 nm have pd: "platform_data_home ?pr (THIS_ADDON_MODULE ?pr) = Inr ?p" by simp
  have cm: "can_mkdir (files ex_world) ?p" unfolding fw by code_simp
  have st: "os_stat (files ex_world) (str_of_path (Path_of_str (dunder_file ?pr)))
     = Inr ([''home'', ''u'', ''japanese'', ''helpers'', ''file_ops.py''], File ''#'' 5 6)"
    unfolding fw by code_simp
  from user_files_dir_legacy [OF no leg c pd cm st] obtain f1 dirs where
    m: "Path_mkdir (files ex_world) ?p = (Inr (), f1)" and d: "is_dir f1 ?p"
    and wp: "walk_parents f1 (dunder_file ?pr) = (dirs, None)"
    and found: "\<And>ds d ds'. dirs = ds @ d # ds' \<and> is_dir f1 (Path (root d) (parts d @ [''user_files'']))
            \<and> (\<forall>x\<in>set ds. \<not> is_dir f1 (Path (root x) (parts x @ [''user_files''])))
          \<Longrightarrow> user_files_dir ?pr ex_world
                = (Inr (Path (root d) (parts d @ [''user_files''])),
                   ex_world\<lparr>files := f1, cache := Some (Path (root d) (parts d @ [''user_files'']))\<rparr>)"
    by blast
  from m have f1: "f1 = ?g" by (simp add: fw)
  have ev: "fst (walk_parents ?g (dunder_file ?pr)) = ?H # ?J # ?R" by code_simp
  with wp f1 have dirs: "dirs = [?H] @ ?J # ?R" by simp
  have a: "is_dir ?g (Path ''/'' [''home'', ''u'', ''japanese'', ''user_files''])" by code_simp
  have b: "\<not> is_dir ?g (Path ''/'' [''home'', ''u'', ''japanese'', ''helpers'', ''user_files''])"
    by code_simp
  from a b f1 have "dirs = [?H] @ ?J # ?R \<and> is_dir f1 (Path (root ?J) (parts ?J @ [''user_files'']))
            \<and> (\<forall>x\<in>set [?H]. \<not> is_dir f1 (Path (root x) (parts x @ [''user_files''])))"
    using dirs by simp
  from found [OF this] d
  have 1: "fst (user_files_dir ?pr ex_world) = Inr (Path ''/'' [''home'', ''u'', ''japanese'', ''user_files''])"
    and 2: "is_dir (files (snd (user_files_dir ?pr ex_world))) ?p"
    by simp_all
  have 3: "fst (user_files_dir ?pr2 ex_world) = Inr ?p" by code_simp
  from pd0 1 2 3 show ?thesis by (intro conjI)
qed

end
